theory Spec2Isabelle
  imports Main "HOL-Library.Multiset" "HOL-Library.Sublist"
begin

section \<open>Python strings\<close>

text \<open>
  A Python \<^verbatim>\<open>str\<close> is modelled as a \<^typ>\<open>string\<close>: one \<^typ>\<open>char\<close> per code point,
  for code points below 256. The script reads both files as text and never looks at bytes.
\<close>

abbreviation SQ :: char where "SQ \<equiv> CHR 0x27"
abbreviation DQ :: char where "DQ \<equiv> CHR 0x22"
abbreviation NL :: char where "NL \<equiv> CHR 0x0A"

text \<open>
  \<^verbatim>\<open>str.isspace\<close>, the characters \<^verbatim>\<open>str.strip()\<close> removes and the class \<^verbatim>\<open>\s\<close> of
  \<^verbatim>\<open>re\<close> are the same set; below 256 it is 9..13, 28..32, 133 and 160.
\<close>

definition isspace :: "char \<Rightarrow> bool" where
  "isspace c \<longleftrightarrow> c \<in> {CHR 0x09, CHR 0x0A, CHR 0x0B, CHR 0x0C, CHR 0x0D,
     CHR 0x1C, CHR 0x1D, CHR 0x1E, CHR 0x1F, CHR 0x20, CHR 0x85, CHR 0xA0}"

definition strip :: "string \<Rightarrow> string" where
  "strip s = rev (dropWhile isspace (rev (dropWhile isspace s)))"

text \<open>\<^verbatim>\<open>s.split("\n")\<close>: always at least one piece.\<close>

fun split_nl :: "string \<Rightarrow> string list" where
  "split_nl [] = [[]]"
| "split_nl (c # cs) =
     (if c = NL then [] # split_nl cs
      else (case split_nl cs of l # ls \<Rightarrow> (c # l) # ls | [] \<Rightarrow> [[c]]))"

text \<open>\<^verbatim>\<open>kw in s\<close> on strings: \<open>kw\<close> occurs as a contiguous piece of \<open>s\<close>.\<close>

fun contains :: "string \<Rightarrow> string \<Rightarrow> bool" where
  "contains kw [] = (kw = [])"
| "contains kw (c # cs) = (prefix kw (c # cs) \<or> contains kw cs)"

text \<open>
  \<^verbatim>\<open>str.lower()\<close> below code point 256: the letters A..Z and the Latin-1 capitals
  192..222 (without the multiplication sign 215) move up by 32; nothing else changes.
\<close>

definition lower_char :: "char \<Rightarrow> char" where
  "lower_char c =
     (let n = (of_char c :: nat)
      in if (65 \<le> n \<and> n \<le> 90) \<or> (192 \<le> n \<and> n \<le> 222 \<and> n \<noteq> 215)
         then char_of (n + 32) else c)"

definition lower :: "string \<Rightarrow> string" where
  "lower s = map lower_char s"

section \<open>The regular expressions of the script\<close>

text \<open>
  Each pattern of the script is translated by hand into the function that Python's
  backtracking matcher computes for it. The pieces:
  \<^item> a literal piece of the pattern is \<open>lit\<close>;
  \<^item> \<^verbatim>\<open>\s*\<close> before a piece that cannot start with white space is \<open>skip_ws\<close> (giving
    back white space never helps the match);
  \<^item> the lazy group \<^verbatim>\<open>(.*?)\<close> is \<open>lazy_body\<close>: the shortest text after which the rest of
    the pattern matches;
  \<^item> \<^verbatim>\<open>re.search\<close> is \<open>re_search\<close>: the first start position at which the pattern matches.
\<close>

definition lit :: "string \<Rightarrow> string \<Rightarrow> string option" where
  "lit p s = (if prefix p s then Some (drop (length p) s) else None)"

definition skip_ws :: "string \<Rightarrow> string" where
  "skip_ws s = dropWhile isspace s"

definition is_quote :: "char \<Rightarrow> bool" where
  "is_quote c \<longleftrightarrow> c = SQ \<or> c = DQ"

fun lazy_body :: "(string \<Rightarrow> bool) \<Rightarrow> string \<Rightarrow> string option" where
  "lazy_body rest [] = (if rest [] then Some [] else None)"
| "lazy_body rest (c # cs) =
     (if rest (c # cs) then Some [] else map_option ((#) c) (lazy_body rest cs))"

fun re_search :: "(string \<Rightarrow> 'a option) \<Rightarrow> string \<Rightarrow> 'a option" where
  "re_search m [] = m []"
| "re_search m (c # cs) =
     (case m (c # cs) of Some g \<Rightarrow> Some g | None \<Rightarrow> re_search m cs)"

text \<open>\<^verbatim>\<open>\.join\(['\"],?['\"]\)\<close>, anchored; the result is the text after the call.\<close>

definition join_call :: "string \<Rightarrow> string option" where
  "join_call s =
     (case lit ''.join('' s of
        None \<Rightarrow> None
      | Some r \<Rightarrow>
          (case r of
             [] \<Rightarrow> None
           | q1 # r1 \<Rightarrow>
               if \<not> is_quote q1 then None
               else (case (case lit '','' r1 of Some t \<Rightarrow> t | None \<Rightarrow> r1) of
                       [] \<Rightarrow> None
                     | q2 # r2 \<Rightarrow> if is_quote q2 then lit '')'' r2 else None)))"

text \<open>\<^verbatim>\<open>\](?:\.join\(['\"],?['\"]\))?;\<close>: what follows the body in the first pattern.\<close>

definition array_end :: "string \<Rightarrow> bool" where
  "array_end s =
     (case lit '']'' s of
        None \<Rightarrow> False
      | Some r \<Rightarrow>
          (case join_call r of Some r' \<Rightarrow> prefix '';'' r' | None \<Rightarrow> False) \<or> prefix '';'' r)"

text \<open>
  \<^verbatim>\<open>export const {name}\s*=\s*\[(.*?)\](?:\.join\(['\"],?['\"]\))?;\<close> with \<^verbatim>\<open>re.DOTALL\<close>,
  anchored at the start of \<open>s\<close>; the result is group 1. The name is spliced into the
  pattern as it is, so the model is for names in which every character stands for itself
  (\<open>plain_name\<close>), as in every call of the script.
\<close>

definition plain_char :: "char \<Rightarrow> bool" where
  "plain_char c \<longleftrightarrow>
     (let n = (of_char c :: nat)
      in (48 \<le> n \<and> n \<le> 57) \<or> (65 \<le> n \<and> n \<le> 90) \<or> n = 95 \<or> (97 \<le> n \<and> n \<le> 122))"

definition plain_name :: "string \<Rightarrow> bool" where
  "plain_name name \<longleftrightarrow> list_all plain_char name"

definition array_pattern :: "string \<Rightarrow> string \<Rightarrow> string option" where
  "array_pattern name s =
     (case lit (''export const '' @ name) s of
        None \<Rightarrow> None
      | Some r1 \<Rightarrow>
          (case lit ''='' (skip_ws r1) of
             None \<Rightarrow> None
           | Some r2 \<Rightarrow>
               (case lit ''['' (skip_ws r2) of
                  None \<Rightarrow> None
                | Some r3 \<Rightarrow> lazy_body array_end r3)))"

text \<open>\<^verbatim>\<open>export const {name}\s*=\s*new Set\(\[(.*?)\]\)\<close> with \<^verbatim>\<open>re.DOTALL\<close>.\<close>

definition set_pattern :: "string \<Rightarrow> string \<Rightarrow> string option" where
  "set_pattern name s =
     (case lit (''export const '' @ name) s of
        None \<Rightarrow> None
      | Some r1 \<Rightarrow>
          (case lit ''='' (skip_ws r1) of
             None \<Rightarrow> None
           | Some r2 \<Rightarrow>
               (case lit ''new Set(['' (skip_ws r2) of
                  None \<Rightarrow> None
                | Some r3 \<Rightarrow> lazy_body (prefix ''])'') r3)))"

text \<open>\<^verbatim>\<open>const {name}\s*=\s*\[(.*?)\];\<close> with \<^verbatim>\<open>re.DOTALL\<close>.\<close>

definition simple_pattern :: "string \<Rightarrow> string \<Rightarrow> string option" where
  "simple_pattern name s =
     (case lit (''const '' @ name) s of
        None \<Rightarrow> None
      | Some r1 \<Rightarrow>
          (case lit ''='' (skip_ws r1) of
             None \<Rightarrow> None
           | Some r2 \<Rightarrow>
               (case lit ''['' (skip_ws r2) of
                  None \<Rightarrow> None
                | Some r3 \<Rightarrow> lazy_body (prefix ''];'') r3)))"

text \<open>
  \<^verbatim>\<open>re.findall(r"'([^']+)'", s)\<close> for the quote \<open>q\<close> (and the same with the double quote):
  at a quote, the longest run of other characters; it is a match when the run is not
  empty and a quote closes it, and the scan goes on behind that quote. Otherwise the scan
  goes on at the next character.
\<close>

function findall_quoted :: "char \<Rightarrow> string \<Rightarrow> string list" where
  "findall_quoted q [] = []"
| "findall_quoted q (c # cs) =
     (if c = q \<and> takeWhile (\<lambda>x. x \<noteq> q) cs \<noteq> [] \<and> dropWhile (\<lambda>x. x \<noteq> q) cs \<noteq> []
      then takeWhile (\<lambda>x. x \<noteq> q) cs # findall_quoted q (tl (dropWhile (\<lambda>x. x \<noteq> q) cs))
      else findall_quoted q cs)"
  by pat_completeness auto
termination
proof (relation "measure (\<lambda>(q, s). length s)")
  fix q c :: char and cs :: string
  have "length (tl (dropWhile (\<lambda>x. x \<noteq> q) cs)) \<le> length cs"
    using length_dropWhile_le [of "\<lambda>x. x \<noteq> q" cs] by simp
  then show "((q, tl (dropWhile (\<lambda>x. x \<noteq> q) cs)), (q, c # cs)) \<in> measure (\<lambda>(q, s). length s)"
    by simp
qed simp_all

text \<open>
  \<^verbatim>\<open>^['\"](.+?)['\"],?\s*(?://.*)?$\<close> on one stripped line (no line break in it).
  \<open>line_tail\<close> is \<^verbatim>\<open>,?\s*(?://.*)?$\<close>, \<open>line_end\<close> is the closing quote with that tail, and
  the lazy group takes at least one character.
\<close>

definition line_tail :: "string \<Rightarrow> bool" where
  "line_tail s =
     (let r = skip_ws (case lit '','' s of Some t \<Rightarrow> t | None \<Rightarrow> s)
      in r = [] \<or> prefix ''//'' r)"

definition line_end :: "string \<Rightarrow> bool" where
  "line_end s = (case s of [] \<Rightarrow> False | q # t \<Rightarrow> is_quote q \<and> line_tail t)"

definition line_pattern :: "string \<Rightarrow> string option" where
  "line_pattern line =
     (case line of
        [] \<Rightarrow> None
      | q # r \<Rightarrow>
          if \<not> is_quote q then None
          else (case r of
                  [] \<Rightarrow> None
                | c # cs \<Rightarrow> map_option ((#) c) (lazy_body line_end cs)))"

section \<open>The extractors\<close>

text \<open>The loop over the lines of a body, shared by both extractors.\<close>

fun line_items :: "string list \<Rightarrow> string list" where
  "line_items [] = []"
| "line_items (l # ls) =
     (let line = strip l
      in if line = [] \<or> prefix ''//'' line then line_items ls
         else (case line_pattern line of
                 Some item \<Rightarrow> item # line_items ls
               | None \<Rightarrow> line_items ls))"

definition multi_line_items :: "string \<Rightarrow> string list" where
  "multi_line_items array_content = line_items (split_nl array_content)"

definition single_line :: "string \<Rightarrow> bool" where
  "single_line array_content \<longleftrightarrow>
     NL \<notin> set (strip array_content) \<or> 4 < count_list array_content SQ"

definition single_line_items :: "string \<Rightarrow> string list" where
  "single_line_items array_content =
     (let items = findall_quoted SQ array_content
      in if items = [] then findall_quoted DQ array_content else items)"

definition array_items :: "string \<Rightarrow> string list" where
  "array_items array_content =
     (if single_line array_content then single_line_items array_content
      else multi_line_items array_content)"

definition extract_array :: "string \<Rightarrow> string \<Rightarrow> string list" where
  "extract_array name content =
     (case (case re_search (array_pattern name) content of
              Some b \<Rightarrow> Some b
            | None \<Rightarrow> re_search (set_pattern name) content) of
        None \<Rightarrow> []
      | Some array_content \<Rightarrow> array_items array_content)"

definition extract_js_array_simple :: "string \<Rightarrow> string \<Rightarrow> string list" where
  "extract_js_array_simple name content =
     (case re_search (simple_pattern name) content of
        None \<Rightarrow> []
      | Some array_content \<Rightarrow> multi_line_items array_content)"

section \<open>The categorizer\<close>

text \<open>
  A Python \<^verbatim>\<open>dict\<close> keeps its keys in insertion order and the result is printed in that
  order, so both tables are association lists. Every key of \<open>category_keywords\<close> is a key
  of \<open>empty_categories\<close>, so the lookup \<^verbatim>\<open>categories[category]\<close> never fails.
\<close>

definition empty_categories :: "(string \<times> string list) list" where
  "empty_categories =
     [(''ads'', []), (''navigation'', []), (''header_footer'', []), (''sidebar'', []),
      (''social'', []), (''comments'', []), (''auth'', []), (''newsletter'', []),
      (''article_meta'', []), (''post_meta'', []), (''author'', []), (''related'', []),
      (''misc'', [])]"

definition category_keywords :: "(string \<times> string list) list" where
  "category_keywords =
     [(''ads'', [''ad'', ''advert'', ''promo'', ''sponsor'', ''banner'']),
      (''navigation'', [''nav'', ''menu'', ''breadcrumb'', ''pagination'', ''skip'', ''jump'']),
      (''header_footer'', [''header'', ''footer'', ''copyright'', ''masthead'', ''topbar'']),
      (''sidebar'', [''sidebar'', ''widget'', ''aside'', ''rail'']),
      (''social'', [''social'', ''share'', ''facebook'', ''twitter'', ''instagram'', ''rss'']),
      (''comments'', [''comment'', ''disqus'', ''discuss'', ''feedback'', ''response'']),
      (''auth'', [''login'', ''sign'', ''register'', ''access-wall'', ''paywall'', ''gated'']),
      (''newsletter'', [''newsletter'', ''subscribe'', ''signup'', ''email'', ''donate'']),
      (''article_meta'', [''article-'', ''article_'', ''article__'']),
      (''post_meta'',
        [''post-'', ''post_'', ''entry-'', ''byline'', ''dateline'', ''timestamp'', ''pub'']),
      (''author'', [''author'', ''bio'', ''avatar'', ''profile'', ''contributor'']),
      (''related'',
        [''related'', ''recommend'', ''more-'', ''read-next'', ''keep-reading'', ''popular'',
         ''trending'', ''recent''])]"

text \<open>
  The inner loop with its \<^verbatim>\<open>break\<close>: the first category of the table one of whose
  keywords occurs in \<open>sel_lower\<close>, or \<open>None\<close> when the loop ends with
  \<^verbatim>\<open>categorized\<close> still false.
\<close>

fun first_category :: "(string \<times> string list) list \<Rightarrow> string \<Rightarrow> string option" where
  "first_category [] sel_lower = None"
| "first_category ((category, keywords) # rest) sel_lower =
     (if list_ex (\<lambda>kw. contains kw sel_lower) keywords then Some category
      else first_category rest sel_lower)"

text \<open>\<^verbatim>\<open>categories[category].append(selector)\<close>\<close>

definition append_to ::
  "string \<Rightarrow> string \<Rightarrow> (string \<times> string list) list \<Rightarrow> (string \<times> string list) list" where
  "append_to category selector categories =
     map (\<lambda>(k, v). if k = category then (k, v @ [selector]) else (k, v)) categories"

definition categorize_step ::
  "(string \<times> string list) list \<Rightarrow> string \<Rightarrow> (string \<times> string list) list" where
  "categorize_step categories selector =
     (case first_category category_keywords (lower selector) of
        Some category \<Rightarrow> append_to category selector categories
      | None \<Rightarrow> append_to ''misc'' selector categories)"

definition categorize_partial_selectors :: "string list \<Rightarrow> (string \<times> string list) list" where
  "categorize_partial_selectors selectors =
     filter (\<lambda>(k, v). v \<noteq> []) (foldl categorize_step empty_categories selectors)"

section \<open>The manifest and its JSON text\<close>

datatype json = JString string | JArray "json list" | JObject "(string \<times> json) list"

definition strings :: "string list \<Rightarrow> json" where
  "strings xs = JArray (map JString xs)"

definition manifest :: "string \<Rightarrow> string \<Rightarrow> json" where
  "manifest content scoring_content =
     (let partial_selectors = extract_array ''PARTIAL_SELECTORS'' content
      in JObject
        [(''$comment'', JString
           ''Web clutter patterns extracted from Defuddle (https://github.com/kepano/defuddle)''),
         (''content_selectors'', JObject
           [(''$comment'', JString ''Selectors for finding main content, in priority order''),
            (''selectors'', strings (extract_array ''ENTRY_POINT_ELEMENTS'' content))]),
         (''remove'', JObject
           [(''$comment'', JString ''Elements to remove from the page''),
            (''exact_selectors'', strings (extract_array ''EXACT_SELECTORS'' content)),
            (''partial_patterns'', JObject
              [(''$comment'', JString
                 ''Substring patterns matched against class/id/data-* attributes (case-insensitive)''),
               (''check_attributes'', strings (extract_array ''TEST_ATTRIBUTES'' content)),
               (''patterns'', JObject
                  (map (\<lambda>(k, v). (k, strings v))
                     (categorize_partial_selectors partial_selectors)))])]),
         (''preserve'', JObject
           [(''$comment'', JString ''Elements to preserve during content extraction''),
            (''block_elements'', strings (extract_array ''BLOCK_ELEMENTS'' content)),
            (''preserve_elements'', strings (extract_array ''PRESERVE_ELEMENTS'' content)),
            (''inline_elements'', strings (extract_array ''INLINE_ELEMENTS'' content)),
            (''allowed_empty'', strings (extract_array ''ALLOWED_EMPTY_ELEMENTS'' content)),
            (''allowed_attributes'', strings (extract_array ''ALLOWED_ATTRIBUTES'' content))]),
         (''footnotes'', JObject
           [(''$comment'', JString ''Selectors for identifying footnotes and citations''),
            (''inline_references'',
               strings (extract_array ''FOOTNOTE_INLINE_REFERENCES'' content)),
            (''list_selectors'', strings (extract_array ''FOOTNOTE_LIST_SELECTORS'' content))]),
         (''scoring'', JObject
           [(''$comment'', JString ''Patterns used for content scoring (from scoring.ts)''),
            (''content_indicators'',
               strings (extract_js_array_simple ''contentIndicators'' scoring_content)),
            (''navigation_indicators'',
               strings (extract_js_array_simple ''navigationIndicators'' scoring_content)),
            (''non_content_patterns'',
               strings (extract_js_array_simple ''nonContentPatterns'' scoring_content))])])"

text \<open>Reading a field of the manifest along a path of keys.\<close>

fun field :: "string list \<Rightarrow> json \<Rightarrow> json option" where
  "field [] j = Some j"
| "field (k # ks) (JObject kvs) =
     (case map_of kvs k of Some j \<Rightarrow> field ks j | None \<Rightarrow> None)"
| "field (k # ks) j = None"

text \<open>
  \<^verbatim>\<open>json.dumps(manifest, indent=2)\<close>, with the defaults \<^verbatim>\<open>ensure_ascii=True\<close> and the
  separators \<^verbatim>\<open>","\<close> and \<^verbatim>\<open>": "\<close>: a string is quoted, with the quote, the backslash and
  everything outside 32..126 escaped; an empty list or dict is \<^verbatim>\<open>[]\<close> or \<^verbatim>\<open>{}\<close>; the
  items of any other stand on lines of their own, two spaces deeper.
\<close>

definition hex_digit :: "nat \<Rightarrow> char" where
  "hex_digit n = ''0123456789abcdef'' ! (n mod 16)"

definition escape_char :: "char \<Rightarrow> string" where
  "escape_char c =
     (if c = DQ then [CHR 0x5C, DQ]
      else if c = CHR 0x5C then [CHR 0x5C, CHR 0x5C]
      else if c = NL then [CHR 0x5C, CHR ''n'']
      else if c = CHR 0x0D then [CHR 0x5C, CHR ''r'']
      else if c = CHR 0x09 then [CHR 0x5C, CHR ''t'']
      else if c = CHR 0x0C then [CHR 0x5C, CHR ''f'']
      else if c = CHR 0x08 then [CHR 0x5C, CHR ''b'']
      else (let n = (of_char c :: nat)
            in if 32 \<le> n \<and> n \<le> 126 then [c]
               else [CHR 0x5C, CHR ''u'', CHR ''0'', CHR ''0'',
                     hex_digit (n div 16), hex_digit n]))"

definition encode_string :: "string \<Rightarrow> string" where
  "encode_string s = [DQ] @ concat (map escape_char s) @ [DQ]"

definition newline_indent :: "nat \<Rightarrow> string" where
  "newline_indent level = NL # replicate (2 * level) (CHR '' '')"

fun join_with :: "string \<Rightarrow> string list \<Rightarrow> string" where
  "join_with sep [] = []"
| "join_with sep [x] = x"
| "join_with sep (x # y # ys) = x @ sep @ join_with sep (y # ys)"

fun dumps_at :: "nat \<Rightarrow> json \<Rightarrow> string" where
  "dumps_at level (JString s) = encode_string s"
| "dumps_at level (JArray xs) =
     (if xs = [] then ''[]''
      else ''['' @ newline_indent (Suc level)
           @ join_with ('','' @ newline_indent (Suc level)) (map (dumps_at (Suc level)) xs)
           @ newline_indent level @ '']'')"
| "dumps_at level (JObject kvs) =
     (if kvs = [] then ''{}''
      else ''{'' @ newline_indent (Suc level)
           @ join_with ('','' @ newline_indent (Suc level))
               (map (\<lambda>(k, v). encode_string k @ '': '' @ dumps_at (Suc level) v) kvs)
           @ newline_indent level @ ''}'')"

definition dumps :: "json \<Rightarrow> string" where
  "dumps j = dumps_at 0 j"

section \<open>The command\<close>

text \<open>
  \<^verbatim>\<open>pathlib\<close> and the file system are the surroundings of a run, given to \<open>main\<close> as a
  record: how a path is made from an argument and printed, its parent and child, whether
  it exists, and what reading it as text gives (the text, or the exception raised, as
  for a directory or a file that is not text).
\<close>

datatype read_error = IsADirectoryError | PermissionError | UnicodeDecodeError

record 'p world =
  Path :: "string \<Rightarrow> 'p"
  str :: "'p \<Rightarrow> string"
  parent :: "'p \<Rightarrow> 'p"
  child :: "'p \<Rightarrow> string \<Rightarrow> 'p"
  path_exists :: "'p \<Rightarrow> bool"
  read_text :: "'p \<Rightarrow> read_error + string"

text \<open>
  What a run leaves behind: the text on standard output, what went to the error stream
  (a printed line, or the traceback of an exception nobody caught) and the exit status.
\<close>

datatype err_output = Line string | Traceback read_error

record outcome =
  stdout :: string
  stderr :: "err_output list"
  status :: nat

definition uncaught :: "read_error \<Rightarrow> outcome" where
  "uncaught e = \<lparr>stdout = [], stderr = [Traceback e], status = 1\<rparr>"

text \<open>The path argument, or the fixed default when there is none.\<close>

definition input_path :: "'p world \<Rightarrow> string list \<Rightarrow> 'p" where
  "input_path w argv =
     (if length argv < 2 then Path w ''tmp/defuddle/src/constants.ts''
      else Path w (argv ! 1))"

text \<open>The sibling \<^verbatim>\<open>scoring.ts\<close>: its text, or the empty text when it does not exist.\<close>

definition scoring_path :: "'p world \<Rightarrow> string list \<Rightarrow> 'p" where
  "scoring_path w argv = child w (parent w (input_path w argv)) ''scoring.ts''"

definition read_scoring :: "'p world \<Rightarrow> string list \<Rightarrow> read_error + string" where
  "read_scoring w argv =
     (if path_exists w (scoring_path w argv) then read_text w (scoring_path w argv)
      else Inr [])"

definition main :: "'p world \<Rightarrow> string list \<Rightarrow> outcome" where
  "main w argv =
     (if \<not> path_exists w (input_path w argv)
      then \<lparr>stdout = [],
            stderr = [Line (''Error: '' @ str w (input_path w argv) @ '' not found'')],
            status = 1\<rparr>
      else (case read_text w (input_path w argv) of
              Inl e \<Rightarrow> uncaught e
            | Inr content \<Rightarrow>
                (case read_scoring w argv of
                   Inl e \<Rightarrow> uncaught e
                 | Inr scoring_content \<Rightarrow>
                     \<lparr>stdout = dumps (manifest content scoring_content) @ [NL],
                      stderr = [],
                      status = 0\<rparr>)))"

section \<open>The forms the specification names\<close>

text \<open>
  The specification describes the declarations and the literal lines in words. These
  predicates follow its words, not the code: they say where in a text such a form
  stands, and the theorems below compare the extractors with them.
\<close>

text \<open>A join call with a separator: \<^verbatim>\<open>.join(',')\<close>, \<^verbatim>\<open>.join("")\<close> and the like.\<close>

definition spec_join :: "string \<Rightarrow> bool" where
  "spec_join j \<longleftrightarrow>
     (\<exists>q1 c q2. j = ''.join('' @ q1 # c @ q2 # '')'' \<and> is_quote q1 \<and> is_quote q2
        \<and> (c = [] \<or> c = '',''))"

text \<open>\<^verbatim>\<open>export const name = [ body ]\<close>, a join call or nothing, and the semicolon.\<close>

definition spec_array_form :: "string \<Rightarrow> string \<Rightarrow> bool" where
  "spec_array_form name text \<longleftrightarrow>
     (\<exists>pre w1 w2 body j post.
        text = pre @ ''export const '' @ name @ w1 @ ''='' @ w2 @ ''['' @ body @ '']'' @ j
                 @ '';'' @ post
        \<and> list_all isspace w1 \<and> list_all isspace w2 \<and> (j = [] \<or> spec_join j))"

text \<open>\<^verbatim>\<open>export const name = new Set([ body ])\<close>\<close>

definition spec_set_form :: "string \<Rightarrow> string \<Rightarrow> bool" where
  "spec_set_form name text \<longleftrightarrow>
     (\<exists>pre w1 w2 body post.
        text = pre @ ''export const '' @ name @ w1 @ ''='' @ w2 @ ''new Set(['' @ body
                 @ ''])'' @ post
        \<and> list_all isspace w1 \<and> list_all isspace w2)"

text \<open>\<^verbatim>\<open>const name = [ body ];\<close>\<close>

definition spec_simple_form :: "string \<Rightarrow> string \<Rightarrow> bool" where
  "spec_simple_form name text \<longleftrightarrow>
     (\<exists>pre w1 w2 body post.
        text = pre @ ''const '' @ name @ w1 @ ''='' @ w2 @ ''['' @ body @ ''];'' @ post
        \<and> list_all isspace w1 \<and> list_all isspace w2)"

text \<open>
  The bucket of one selector, as the body of the categorizer's outer loop chooses it.
\<close>

definition category_of :: "string \<Rightarrow> string" where
  "category_of selector =
     (case first_category category_keywords (lower selector) of
        Some category \<Rightarrow> category
      | None \<Rightarrow> ''misc'')"

text \<open>The names of the buckets, in the order in which the dictionary is built.\<close>

definition bucket_names :: "string list" where
  "bucket_names = map fst empty_categories"

text \<open>\<^verbatim>\<open>any(kw in sel_lower for kw in keywords)\<close> for the keywords at place \<open>i\<close> of the table.\<close>

definition matches_at :: "nat \<Rightarrow> string \<Rightarrow> bool" where
  "matches_at i sel_lower \<longleftrightarrow>
     list_ex (\<lambda>kw. contains kw sel_lower) (snd (category_keywords ! i))"

section \<open>Example inputs\<close>

text \<open>
  A body of three lines with four single quotes:
  \<^verbatim>\<open>'a', 'b',\<close> and \<^verbatim>\<open>"c"\<close> between two line breaks.
\<close>

definition four_quote_body :: string where
  "four_quote_body = [NL] @ [SQ] @ ''a'' @ [SQ] @ '', '' @ [SQ] @ ''b'' @ [SQ] @ '',''
     @ [NL] @ [DQ] @ ''c'' @ [DQ] @ [NL]"

text \<open>
  A body of two lines, each one single-quoted literal with a double quote inside:
  \<^verbatim>\<open>'a[href^="//cdn"]',\<close> and \<^verbatim>\<open>'a" // b',\<close>.
\<close>

definition truncated_body :: string where
  "truncated_body = [NL] @ ''  '' @ [SQ] @ ''a[href^=\"//cdn\"]'' @ [SQ] @ '',''
     @ [NL] @ ''  '' @ [SQ] @ ''a\" // b'' @ [SQ] @ '','' @ [NL]"

text \<open>Selectors for the categorizer, one of them twice.\<close>

definition example_selectors :: "string list" where
  "example_selectors = [''nav-ad'', ''Foo'', ''NAVbar'', ''xyz'', ''sidebar'', ''Foo'', ''ADVERT'']"

text \<open>The line \<^verbatim>\<open>'[role="article"]',  // comment\<close> of the specification.\<close>

definition role_line :: string where
  "role_line = [SQ] @ ''[role=\"article\"]'' @ [SQ] @ '',  // comment''"

text \<open>The declaration of the end-to-end scenario.\<close>

definition entry_point_decl :: string where
  "entry_point_decl = ''export const ENTRY_POINT_ELEMENTS = ['article', 'main'];''"

text \<open>A world in which every path is a directory: it exists, and reading it raises.\<close>

definition directory_world :: "string world" where
  "directory_world =
     \<lparr>Path = (\<lambda>s. s), str = (\<lambda>p. p), parent = (\<lambda>p. p),
      child = (\<lambda>p n. p @ ''/'' @ n), path_exists = (\<lambda>p. True),
      read_text = (\<lambda>p. Inl IsADirectoryError)\<rparr>"

text \<open>A world with one file, \<^verbatim>\<open>constants.ts\<close>, holding the given text.\<close>

definition one_file_world :: "string \<Rightarrow> string world" where
  "one_file_world text =
     \<lparr>Path = (\<lambda>s. s), str = (\<lambda>p. p), parent = (\<lambda>p. []),
      child = (\<lambda>p n. p @ n), path_exists = (\<lambda>p. p = ''constants.ts''),
      read_text = (\<lambda>p. if p = ''constants.ts'' then Inr text else Inl PermissionError)\<rparr>"

text \<open>
  A document with the declaration of the scenario between a comment line and a line
  that exports the name again.
\<close>

definition scenario_text :: string where
  "scenario_text = (''// constants'' @ [NL]) @ entry_point_decl
     @ ([NL] @ ''export default ENTRY_POINT_ELEMENTS;'' @ [NL])"

section \<open>Evaluating the model\<close>

lemmas pattern_defs = lit_def skip_ws_def isspace_def is_quote_def join_call_def array_end_def
  array_pattern_def set_pattern_def simple_pattern_def line_tail_def line_end_def
  line_pattern_def

lemmas extract_defs = pattern_defs strip_def multi_line_items_def single_line_def
  single_line_items_def array_items_def extract_array_def extract_js_array_simple_def


section \<open>The single-line heuristic\<close>

lemma in_dropWhile_iff:
  assumes "P x"
  shows "x \<in> set (dropWhile P l) \<longleftrightarrow> (\<exists>u w. l = u @ x # w \<and> (\<exists>c\<in>set u. \<not> P c))"
proof
  assume "x \<in> set (dropWhile P l)"
  then obtain a w where aw: "dropWhile P l = a @ x # w"
    by (meson split_list)
  have "a \<noteq> []"
  proof
    assume "a = []"
    with aw have "dropWhile P l = x # w" by simp
    then have "\<not> P x" using hd_dropWhile [of P l] by simp
    with assms show False by simp
  qed
  then have "\<not> P (hd a)" using aw hd_dropWhile [of P l] by (cases a) auto
  moreover have "hd a \<in> set a" using \<open>a \<noteq> []\<close> by simp
  moreover have "l = (takeWhile P l @ a) @ x # w"
    using aw takeWhile_dropWhile_id [of P l] by simp
  ultimately show "\<exists>u w. l = u @ x # w \<and> (\<exists>c\<in>set u. \<not> P c)"
    by (metis Un_iff set_append)
next
  assume "\<exists>u w. l = u @ x # w \<and> (\<exists>c\<in>set u. \<not> P c)"
  then obtain u w c where "l = u @ x # w" "c \<in> set u" "\<not> P c" by blast
  then have "dropWhile P l = dropWhile P u @ x # w"
    by (simp add: dropWhile_append1)
  then show "x \<in> set (dropWhile P l)" by simp
qed

lemma isspace_NL: "isspace NL"
  by (simp add: isspace_def)

lemma newline_in_strip:
  "NL \<in> set (strip b) \<longleftrightarrow>
     (\<exists>u w. b = u @ NL # w \<and> (\<exists>c\<in>set u. \<not> isspace c) \<and> (\<exists>c\<in>set w. \<not> isspace c))"
proof
  define d where "d = dropWhile isspace b"
  assume "NL \<in> set (strip b)"
  then have "NL \<in> set (dropWhile isspace (rev d))"
    by (simp add: strip_def d_def)
  then obtain u' w' c where r: "rev d = u' @ NL # w'" and c: "c \<in> set u'" "\<not> isspace c"
    using in_dropWhile_iff [of isspace NL "rev d"] isspace_NL by blast
  from r have "rev (rev d) = rev (u' @ NL # w')" by simp
  then have d: "d = rev w' @ NL # rev u'" by simp
  have "rev w' \<noteq> []"
  proof
    assume "rev w' = []"
    with d have "dropWhile isspace b = NL # rev u'" by (simp add: d_def)
    then have "\<not> isspace NL" using hd_dropWhile [of isspace b] by simp
    then show False by (simp add: isspace_NL)
  qed
  then have "\<not> isspace (hd (rev w'))"
    using d hd_dropWhile [of isspace b] by (cases "rev w'") (auto simp: d_def)
  moreover have "hd (rev w') \<in> set (takeWhile isspace b @ rev w')"
    using \<open>rev w' \<noteq> []\<close> by (cases "rev w'") auto
  moreover have "b = (takeWhile isspace b @ rev w') @ NL # rev u'"
    using d takeWhile_dropWhile_id [of isspace b] by (simp add: d_def)
  moreover have "c \<in> set (rev u')" using c by simp
  ultimately show "\<exists>u w. b = u @ NL # w \<and> (\<exists>c\<in>set u. \<not> isspace c) \<and> (\<exists>c\<in>set w. \<not> isspace c)"
    using c(2) by blast
next
  assume "\<exists>u w. b = u @ NL # w \<and> (\<exists>c\<in>set u. \<not> isspace c) \<and> (\<exists>c\<in>set w. \<not> isspace c)"
  then obtain u w c1 c2 where b: "b = u @ NL # w"
    and c1: "c1 \<in> set u" "\<not> isspace c1" and c2: "c2 \<in> set w" "\<not> isspace c2"
    by blast
  have "dropWhile isspace b = dropWhile isspace u @ NL # w"
    using b c1 by (simp add: dropWhile_append1)
  then have "rev (dropWhile isspace b) = rev w @ NL # rev (dropWhile isspace u)"
    by simp
  moreover have "c2 \<in> set (rev w)" using c2 by simp
  ultimately have "NL \<in> set (dropWhile isspace (rev (dropWhile isspace b)))"
    using in_dropWhile_iff [of isspace NL "rev (dropWhile isspace b)"] isspace_NL c2(2) by blast
  then show "NL \<in> set (strip b)" by (simp add: strip_def)
qed

text \<open>
  Claim C1, as the code has it. A captured body takes the multi-line path exactly when a
  line break stands between two characters of it that are not white space (the body is
  stripped before the test) and it holds at most four single quotes; every other body
  takes the single-line path, which returns all single-quoted literals, or the
  double-quoted ones when there is no single-quoted one. A body with such a line break
  and exactly three or four single quotes is therefore read line by line.
\<close>

theorem single_line_heuristic:
  "array_items b =
     (if (\<exists>u w. b = u @ NL # w \<and> (\<exists>c\<in>set u. \<not> isspace c) \<and> (\<exists>c\<in>set w. \<not> isspace c))
          \<and> count_list b SQ \<le> 4
      then multi_line_items b
      else if findall_quoted SQ b = [] then findall_quoted DQ b
      else findall_quoted SQ b)"
proof (cases "(\<exists>u w. b = u @ NL # w \<and> (\<exists>c\<in>set u. \<not> isspace c) \<and> (\<exists>c\<in>set w. \<not> isspace c))
          \<and> count_list b SQ \<le> 4")
  case True
  then have "\<not> single_line b"
    unfolding single_line_def newline_in_strip by auto
  then have "array_items b = multi_line_items b"
    by (simp add: array_items_def)
  then show ?thesis
    by (subst if_P [OF True])
next
  case False
  then have "single_line b"
    unfolding single_line_def newline_in_strip by auto
  then have "array_items b =
     (if findall_quoted SQ b = [] then findall_quoted DQ b else findall_quoted SQ b)"
    by (simp add: array_items_def single_line_items_def Let_def)
  then show ?thesis
    by (subst if_not_P [OF False])
qed

lemma four_quote_body_split:
  "four_quote_body = (NL # SQ # ''a'' @ [SQ] @ '', '' @ [SQ] @ ''b'' @ [SQ] @ '','') @ NL # (DQ # ''c'' @ [DQ, NL])"
  by (simp add: four_quote_body_def)

theorem single_line_heuristic_witness:
  "array_items four_quote_body = multi_line_items four_quote_body
   \<and> multi_line_items four_quote_body = [''a', 'b'', ''c'']"
proof -
  have "\<exists>u w. four_quote_body = u @ NL # w \<and> (\<exists>c\<in>set u. \<not> isspace c) \<and> (\<exists>c\<in>set w. \<not> isspace c)"
    using four_quote_body_split by (intro exI conjI, assumption) (simp_all add: isspace_def)
  moreover have "count_list four_quote_body SQ \<le> 4"
    by (simp add: four_quote_body_def)
  ultimately have "array_items four_quote_body = multi_line_items four_quote_body"
    using single_line_heuristic [of four_quote_body] by simp
  moreover have "multi_line_items four_quote_body = [''a', 'b'', ''c'']"
    by (simp add: four_quote_body_def extract_defs)
  ultimately show ?thesis by simp
qed

text \<open>
  The body \<open>four_quote_body\<close> contains line breaks and exactly four single quotes, and it
  is not treated as single-line: the extractor returns the two whole-line literals
  \<^verbatim>\<open>a', 'b\<close> and \<^verbatim>\<open>c\<close>, where the single-line path would have returned \<^verbatim>\<open>a\<close> and
  \<^verbatim>\<open>b\<close>.
\<close>

theorem single_line_heuristic_counterexample:
  "NL \<in> set four_quote_body \<and> count_list four_quote_body SQ = 4
   \<and> \<not> single_line four_quote_body
   \<and> extract_array ''X'' (''export const X = ['' @ four_quote_body @ ''];'') = [''a', 'b'', ''c'']
   \<and> single_line_items four_quote_body = [''a'', ''b'']"
  by (simp add: four_quote_body_def extract_defs)

section \<open>No empty strings\<close>

lemma findall_quoted_nonempty: "[] \<notin> set (findall_quoted q s)"
  by (induction q s rule: findall_quoted.induct) (auto split: if_splits)

lemma line_pattern_nonempty: "line_pattern l \<noteq> Some []"
  by (auto simp: line_pattern_def split: list.splits if_splits)

lemma line_items_nonempty: "[] \<notin> set (line_items ls)"
  by (induction ls) (auto simp: Let_def line_pattern_nonempty split: if_splits option.splits)

lemma single_line_items_nonempty: "[] \<notin> set (single_line_items b)"
  by (auto simp: single_line_items_def Let_def findall_quoted_nonempty split: if_splits)

lemma array_items_nonempty: "[] \<notin> set (array_items b)"
  by (auto simp: array_items_def multi_line_items_def single_line_items_nonempty
      line_items_nonempty split: if_splits)


text \<open>
  Claim C10. No string returned by \<open>extract_array\<close> or \<open>extract_js_array_simple\<close> is
  empty: both single-line patterns and the whole-line pattern ask for at least one
  character between the quotes.
\<close>

theorem extracted_strings_nonempty:
  assumes "plain_name name"
  shows "(\<forall>x \<in> set (extract_array name content). x \<noteq> [])
       \<and> (\<forall>x \<in> set (extract_js_array_simple name content). x \<noteq> [])"
proof -
  have "[] \<notin> set (extract_array name content)"
    by (simp add: extract_array_def array_items_nonempty split: option.splits)
  moreover have "[] \<notin> set (extract_js_array_simple name content)"
    by (simp add: extract_js_array_simple_def multi_line_items_def line_items_nonempty
        split: option.splits)
  ultimately show ?thesis by metis
qed

theorem extracted_strings_nonempty_witness:
  "plain_name ''ENTRY_POINT_ELEMENTS''
   \<and> extract_array ''ENTRY_POINT_ELEMENTS'' entry_point_decl = [''article'', ''main'']
   \<and> list_all (\<lambda>x. x \<noteq> []) (extract_array ''ENTRY_POINT_ELEMENTS'' entry_point_decl)
   \<and> extract_js_array_simple ''ENTRY_POINT_ELEMENTS'' entry_point_decl = [''article', 'main'']
   \<and> list_all (\<lambda>x. x \<noteq> []) (extract_js_array_simple ''ENTRY_POINT_ELEMENTS'' entry_point_decl)"
proof -
  have name: "plain_name ''ENTRY_POINT_ELEMENTS''"
    by (simp add: plain_name_def plain_char_def)
  have "extract_array ''ENTRY_POINT_ELEMENTS'' entry_point_decl = [''article'', ''main'']"
    by (simp add: entry_point_decl_def extract_defs)
  moreover have "extract_js_array_simple ''ENTRY_POINT_ELEMENTS'' entry_point_decl
      = [''article', 'main'']"
    by (simp add: entry_point_decl_def extract_defs)
  ultimately show ?thesis
    using name extracted_strings_nonempty [OF name, of entry_point_decl]
    unfolding list_all_iff by blast
qed

section \<open>Matching, step by step\<close>

lemma lit_Some: "lit p s = Some r \<longleftrightarrow> s = p @ r"
  by (auto simp: lit_def prefix_def)

lemma skip_ws_append:
  assumes "list_all isspace w" and "m = [] \<or> \<not> isspace (hd m)"
  shows "skip_ws (w @ m) = m"
proof -
  have "dropWhile isspace (w @ m) = dropWhile isspace m"
    using assms(1) by (simp add: dropWhile_append2 list_all_iff)
  moreover have "dropWhile isspace m = m"
    using assms(2) by (cases m) auto
  ultimately show ?thesis by (simp add: skip_ws_def)
qed

lemma skip_ws_split: "\<exists>w. s = w @ skip_ws s \<and> list_all isspace w"
proof -
  have "s = takeWhile isspace s @ skip_ws s"
    by (simp add: skip_ws_def)
  moreover have "list_all isspace (takeWhile isspace s)"
    by (simp add: list_all_iff) (meson set_takeWhileD)
  ultimately show ?thesis by blast
qed

lemma lazy_body_Some: "lazy_body rest s = Some b \<Longrightarrow> \<exists>t. s = b @ t \<and> rest t"
  by (induction s arbitrary: b) (auto split: if_splits)

lemma lazy_body_finds: "rest t \<Longrightarrow> \<exists>b'. lazy_body rest (b @ t) = Some b'"
proof (induction b)
  case Nil
  then show ?case by (cases t) auto
next
  case (Cons c b)
  then show ?case by (cases "rest (c # b @ t)") auto
qed

section \<open>Whole-line literals\<close>

text \<open>
  Claim C5 says that on the multi-line path a line that is one quoted literal, with a
  comma or a line comment behind it or neither, yields exactly the content of the
  literal. For the line \<^verbatim>\<open>'[role="article"]',  // comment\<close> the code does so. It does not
  for the two lines of \<open>truncated_body\<close>: the whole-line pattern closes the literal at the
  first quote of either kind that a comma, white space and a comment or the end of the
  line may follow, so the double quote inside \<^verbatim>\<open>'a[href^="//cdn"]'\<close> ends the content at
  \<^verbatim>\<open>a[href^=\<close> and the rest is read as a comment, and \<^verbatim>\<open>'a" // b'\<close> yields \<^verbatim>\<open>a\<close>. Both
  extractors return the cut contents; the single-line path returns the whole contents
  for the same text.
\<close>

theorem whole_line_literal_truncated:
  "CHR 0x0A \<in> set (strip truncated_body) \<and> count_list truncated_body SQ = 4
   \<and> extract_array ''X'' (''export const X = ['' @ truncated_body @ ''];'')
       = [''a[href^='', ''a'']
   \<and> extract_js_array_simple ''X'' (''const X = ['' @ truncated_body @ ''];'')
       = [''a[href^='', ''a'']
   \<and> single_line_items truncated_body = [''a[href^=\"//cdn\"]'', ''a\" // b'']
   \<and> multi_line_items role_line = [''[role=\"article\"]'']"
  by (simp add: truncated_body_def role_line_def extract_defs)

section \<open>Declarations that are not there\<close>

lemma re_search_Some: "re_search m s = Some b \<Longrightarrow> \<exists>pre t. s = pre @ t \<and> m t = Some b"
proof (induction s)
  case Nil
  then show ?case by simp
next
  case (Cons c cs)
  show ?case
  proof (cases "m (c # cs)")
    case None
    with Cons obtain pre t where "cs = pre @ t" "m t = Some b" by auto
    then have "c # cs = (c # pre) @ t \<and> m t = Some b" by simp
    then show ?thesis by blast
  next
    case (Some g)
    with Cons.prems have "c # cs = [] @ (c # cs) \<and> m (c # cs) = Some b" by simp
    then show ?thesis by blast
  qed
qed

lemma re_search_finds: "m t \<noteq> None \<Longrightarrow> re_search m (pre @ t) \<noteq> None"
proof (induction pre)
  case Nil
  then show ?case by (cases t) (auto split: option.splits)
next
  case (Cons c pre)
  then show ?case by (auto split: option.splits)
qed

lemma join_call_Some: "join_call s = Some r \<Longrightarrow> \<exists>j. s = j @ r \<and> spec_join j"
proof -
  assume a: "join_call s = Some r"
  then obtain q1 r1 where r1: "s = ''.join('' @ q1 # r1" "is_quote q1"
    by (auto simp: join_call_def lit_Some split: option.splits list.splits if_splits)
  define r1' where "r1' = (case lit '','' r1 of Some t \<Rightarrow> t | None \<Rightarrow> r1)"
  have c: "\<exists>c. r1 = c @ r1' \<and> (c = [] \<or> c = '','')"
  proof (cases "lit '','' r1")
    case None
    then have "r1 = [] @ r1'" by (simp add: r1'_def)
    then show ?thesis by blast
  next
    case (Some x)
    then have "r1' = x" by (simp add: r1'_def)
    moreover from Some have "r1 = '','' @ x" by (simp only: lit_Some)
    ultimately show ?thesis by blast
  qed
  from a r1 obtain q2 where q2: "r1' = q2 # '')'' @ r" "is_quote q2"
    by (auto simp: join_call_def lit_def r1'_def prefix_def split: list.splits if_splits)
  from c obtain c where c': "r1 = c @ r1'" "c = [] \<or> c = '',''" by blast
  have "s = (''.join('' @ q1 # c @ q2 # '')'') @ r"
    using r1(1) c'(1) q2(1) by simp
  moreover have "spec_join (''.join('' @ q1 # c @ q2 # '')'')"
    unfolding spec_join_def using r1(2) q2(2) c'(2) by blast
  ultimately show ?thesis by blast
qed

lemma join_call_complete:
  assumes "spec_join j"
  shows "join_call (j @ r) = Some r"
proof -
  from assms obtain q1 c q2 where j: "j = ''.join('' @ q1 # c @ q2 # '')''"
    and q: "is_quote q1" "is_quote q2" and c: "c = [] \<or> c = '',''"
    unfolding spec_join_def by blast
  from c show ?thesis
  proof
    assume "c = []"
    moreover have "lit '','' (q2 # '')'' @ r) = None"
      using q(2) by (auto simp: lit_def is_quote_def)
    ultimately show ?thesis
      using j q by (simp add: join_call_def lit_def)
  next
    assume "c = '',''"
    then show ?thesis
      using j q by (simp add: join_call_def lit_def)
  qed
qed

lemma array_end_sound:
  assumes "array_end t"
  shows "\<exists>j post. t = '']'' @ j @ '';'' @ post \<and> (j = [] \<or> spec_join j)"
proof -
  from assms obtain r where r: "t = '']'' @ r"
    and alt: "(\<exists>r'. join_call r = Some r' \<and> prefix '';'' r') \<or> prefix '';'' r"
    by (auto simp: array_end_def lit_Some split: option.splits)
  from alt show ?thesis
  proof
    assume "\<exists>r'. join_call r = Some r' \<and> prefix '';'' r'"
    then obtain r' post where "join_call r = Some r'" "r' = '';'' @ post"
      by (auto simp: prefix_def)
    then obtain j where "r = j @ '';'' @ post" "spec_join j"
      using join_call_Some by blast
    with r show ?thesis by auto
  next
    assume "prefix '';'' r"
    then obtain post where "r = [] @ '';'' @ post"
      by (auto simp: prefix_def)
    with r show ?thesis by blast
  qed
qed

lemma array_end_complete:
  assumes "j = [] \<or> spec_join j"
  shows "array_end ('']'' @ j @ '';'' @ post)"
  using assms
proof
  assume "j = []"
  then show ?thesis by (simp add: array_end_def lit_def)
next
  assume "spec_join j"
  then have "join_call (j @ '';'' @ post) = Some ('';'' @ post)"
    by (rule join_call_complete)
  then show ?thesis by (simp add: array_end_def lit_def)
qed

text \<open>The shared head of the three patterns: a keyword and the name, \<open>=\<close> and an opening.\<close>

lemma head_sound:
  assumes "lit kw s = Some r1" "lit ''='' (skip_ws r1) = Some r2" "lit opening (skip_ws r2) = Some r3"
  shows "\<exists>w1 w2. s = kw @ w1 @ ''='' @ w2 @ opening @ r3 \<and> list_all isspace w1 \<and> list_all isspace w2"
proof -
  obtain w1 where w1: "r1 = w1 @ skip_ws r1" "list_all isspace w1"
    using skip_ws_split by blast
  obtain w2 where w2: "r2 = w2 @ skip_ws r2" "list_all isspace w2"
    using skip_ws_split by blast
  from assms have "s = kw @ r1" "skip_ws r1 = ''='' @ r2" "skip_ws r2 = opening @ r3"
    by (simp_all only: lit_Some)
  with w1 w2 have "s = kw @ w1 @ ''='' @ w2 @ opening @ r3"
    by simp
  with w1(2) w2(2) show ?thesis by blast
qed

lemma head_complete:
  assumes "list_all isspace w1" "list_all isspace w2" "opening \<noteq> []" "\<not> isspace (hd opening)"
  shows "\<exists>r1 r2. lit kw (kw @ w1 @ ''='' @ w2 @ opening @ r3) = Some r1
     \<and> lit ''='' (skip_ws r1) = Some r2 \<and> lit opening (skip_ws r2) = Some r3"
proof -
  have "skip_ws (w1 @ ''='' @ w2 @ opening @ r3) = ''='' @ w2 @ opening @ r3"
    by (rule skip_ws_append [OF assms(1)]) (simp add: isspace_def)
  moreover have "\<not> isspace (hd (opening @ r3))"
    using assms(3,4) by simp
  then have "skip_ws (w2 @ opening @ r3) = opening @ r3"
    by (intro skip_ws_append [OF assms(2)]) simp
  ultimately show ?thesis
    by (simp add: lit_Some)
qed





text \<open>The three declaration patterns share one shape; sound and complete for that shape.\<close>

lemma declaration_sound:
  assumes "(case lit kw s of
              None \<Rightarrow> None
            | Some r1 \<Rightarrow>
                (case lit ''='' (skip_ws r1) of
                   None \<Rightarrow> None
                 | Some r2 \<Rightarrow>
                     (case lit bracket (skip_ws r2) of
                        None \<Rightarrow> None
                      | Some r3 \<Rightarrow> lazy_body rest r3))) = Some b"
  shows "\<exists>w1 w2 t. s = kw @ w1 @ ''='' @ w2 @ bracket @ b @ t
      \<and> list_all isspace w1 \<and> list_all isspace w2 \<and> rest t"
proof -
  from assms obtain r1 where r1: "lit kw s = Some r1"
    by (cases "lit kw s") simp_all
  with assms obtain r2 where r2: "lit ''='' (skip_ws r1) = Some r2"
    by (cases "lit ''='' (skip_ws r1)") simp_all
  with assms r1 obtain r3 where r3: "lit bracket (skip_ws r2) = Some r3"
    by (cases "lit bracket (skip_ws r2)") simp_all
  with assms r1 r2 have body: "lazy_body rest r3 = Some b"
    by simp
  obtain w1 w2 where s: "s = kw @ w1 @ ''='' @ w2 @ bracket @ r3"
    and w: "list_all isspace w1" "list_all isspace w2"
    using head_sound [OF r1 r2 r3] by blast
  from body obtain t where t: "r3 = b @ t" "rest t"
    using lazy_body_Some by blast
  have "s = kw @ w1 @ ''='' @ w2 @ bracket @ b @ t"
    unfolding s t(1) by simp
  with w t(2) show ?thesis by blast
qed

lemma declaration_complete:
  assumes w: "list_all isspace w1" "list_all isspace w2"
    and bracket: "bracket \<noteq> []" "\<not> isspace (hd bracket)" and t: "rest t"
  shows "\<exists>b'. (case lit kw (kw @ w1 @ ''='' @ w2 @ bracket @ b @ t) of
              None \<Rightarrow> None
            | Some r1 \<Rightarrow>
                (case lit ''='' (skip_ws r1) of
                   None \<Rightarrow> None
                 | Some r2 \<Rightarrow>
                     (case lit bracket (skip_ws r2) of
                        None \<Rightarrow> None
                      | Some r3 \<Rightarrow> lazy_body rest r3))) = Some b'"
proof -
  obtain r1 r2 where head:
    "lit kw (kw @ w1 @ ''='' @ w2 @ bracket @ (b @ t)) = Some r1"
    "lit ''='' (skip_ws r1) = Some r2"
    "lit bracket (skip_ws r2) = Some (b @ t)"
    using head_complete [OF w bracket] by blast
  obtain b' where "lazy_body rest (b @ t) = Some b'"
    using lazy_body_finds [of rest, OF t] by blast
  with head show ?thesis by simp
qed



lemma array_search_sound:
  assumes "re_search (array_pattern name) text = Some b"
  shows "spec_array_form name text"
proof -
  obtain pre s where ps: "text = pre @ s" "array_pattern name s = Some b"
    using re_search_Some [OF assms] by (elim exE conjE) (rule that)
  have "\<exists>w1 w2 t. s = (''export const '' @ name) @ w1 @ ''='' @ w2 @ ''['' @ b @ t
      \<and> list_all isspace w1 \<and> list_all isspace w2 \<and> array_end t"
    by (rule declaration_sound [OF ps(2) [unfolded array_pattern_def]])
  then obtain w1 w2 t where s: "s = (''export const '' @ name) @ w1 @ ''='' @ w2 @ ''[''
      @ b @ t" and w: "list_all isspace w1" "list_all isspace w2" and t: "array_end t"
    by (elim exE conjE) (rule that)
  obtain j post where j: "t = '']'' @ j @ '';'' @ post" "j = [] \<or> spec_join j"
    using array_end_sound [OF t] by (elim exE conjE) (rule that)
  have "text = pre @ ''export const '' @ name @ w1 @ ''='' @ w2 @ ''['' @ b @ '']'' @ j @ '';''
      @ post"
    unfolding ps(1) s j(1) by simp
  with w j(2) show ?thesis
    unfolding spec_array_form_def by (intro exI conjI)
qed

lemma array_search_complete:
  assumes "spec_array_form name text"
  shows "re_search (array_pattern name) text \<noteq> None"
proof -
  from assms obtain pre w1 w2 body j post where
    form: "text = pre @ ''export const '' @ name @ w1 @ ''='' @ w2 @ ''['' @ body @ '']'' @ j
      @ '';'' @ post"
    and w: "list_all isspace w1" "list_all isspace w2" and j: "j = [] \<or> spec_join j"
    unfolding spec_array_form_def by (elim exE conjE) (rule that)
  define s where "s = (''export const '' @ name) @ w1 @ ''='' @ w2 @ ''['' @ body
      @ ('']'' @ j @ '';'' @ post)"
  have bracket: "''['' \<noteq> []" "\<not> isspace (hd ''['')"
    by (simp_all add: isspace_def)
  have "\<exists>b'. array_pattern name s = Some b'"
    unfolding array_pattern_def s_def
    by (rule declaration_complete [where rest = array_end, OF w bracket array_end_complete [OF j]])
  then have "array_pattern name s \<noteq> None"
    by auto
  then have "re_search (array_pattern name) (pre @ s) \<noteq> None"
    by (rule re_search_finds)
  moreover have "text = pre @ s"
    unfolding form s_def by simp
  ultimately show ?thesis by simp
qed

lemma set_search_sound:
  assumes "re_search (set_pattern name) text = Some b"
  shows "spec_set_form name text"
proof -
  obtain pre s where ps: "text = pre @ s" "set_pattern name s = Some b"
    using re_search_Some [OF assms] by (elim exE conjE) (rule that)
  have "\<exists>w1 w2 t. s = (''export const '' @ name) @ w1 @ ''='' @ w2 @ ''new Set(['' @ b @ t
      \<and> list_all isspace w1 \<and> list_all isspace w2 \<and> prefix ''])'' t"
    by (rule declaration_sound [OF ps(2) [unfolded set_pattern_def]])
  then obtain w1 w2 t where s: "s = (''export const '' @ name) @ w1 @ ''='' @ w2 @ ''new Set(['' @ b @ t"
    and w: "list_all isspace w1" "list_all isspace w2" and t: "prefix ''])'' t"
    by (elim exE conjE) (rule that)
  from t obtain post where post: "t = ''])'' @ post"
    unfolding prefix_def by (elim exE) (rule that)
  have "text = pre @ ''export const '' @ name @ w1 @ ''='' @ w2 @ ''new Set(['' @ b @ ''])'' @ post"
    unfolding ps(1) s post by simp
  with w show ?thesis
    unfolding spec_set_form_def by (intro exI conjI)
qed

lemma set_search_complete:
  assumes "spec_set_form name text"
  shows "re_search (set_pattern name) text \<noteq> None"
proof -
  from assms obtain pre w1 w2 body post where
    form: "text = pre @ ''export const '' @ name @ w1 @ ''='' @ w2 @ ''new Set(['' @ body @ ''])'' @ post"
    and w: "list_all isspace w1" "list_all isspace w2"
    unfolding spec_set_form_def by (elim exE conjE) (rule that)
  define s where "s = (''export const '' @ name) @ w1 @ ''='' @ w2 @ ''new Set(['' @ body @ (''])'' @ post)"
  have bracket: "''new Set(['' \<noteq> []" "\<not> isspace (hd ''new Set(['')"
    by (simp_all add: isspace_def)
  have closing: "prefix ''])'' (''])'' @ post)"
    by simp
  have "\<exists>b'. set_pattern name s = Some b'"
    unfolding set_pattern_def s_def
    by (rule declaration_complete [where rest = "prefix ''])''", OF w bracket closing])
  then have "set_pattern name s \<noteq> None"
    by auto
  then have "re_search (set_pattern name) (pre @ s) \<noteq> None"
    by (rule re_search_finds)
  moreover have "text = pre @ s"
    unfolding form s_def by simp
  ultimately show ?thesis by simp
qed

lemma simple_search_sound:
  assumes "re_search (simple_pattern name) text = Some b"
  shows "spec_simple_form name text"
proof -
  obtain pre s where ps: "text = pre @ s" "simple_pattern name s = Some b"
    using re_search_Some [OF assms] by (elim exE conjE) (rule that)
  have "\<exists>w1 w2 t. s = (''const '' @ name) @ w1 @ ''='' @ w2 @ ''['' @ b @ t
      \<and> list_all isspace w1 \<and> list_all isspace w2 \<and> prefix ''];'' t"
    by (rule declaration_sound [OF ps(2) [unfolded simple_pattern_def]])
  then obtain w1 w2 t where s: "s = (''const '' @ name) @ w1 @ ''='' @ w2 @ ''['' @ b @ t"
    and w: "list_all isspace w1" "list_all isspace w2" and t: "prefix ''];'' t"
    by (elim exE conjE) (rule that)
  from t obtain post where post: "t = ''];'' @ post"
    unfolding prefix_def by (elim exE) (rule that)
  have "text = pre @ ''const '' @ name @ w1 @ ''='' @ w2 @ ''['' @ b @ ''];'' @ post"
    unfolding ps(1) s post by simp
  with w show ?thesis
    unfolding spec_simple_form_def by (intro exI conjI)
qed

lemma simple_search_complete:
  assumes "spec_simple_form name text"
  shows "re_search (simple_pattern name) text \<noteq> None"
proof -
  from assms obtain pre w1 w2 body post where
    form: "text = pre @ ''const '' @ name @ w1 @ ''='' @ w2 @ ''['' @ body @ ''];'' @ post"
    and w: "list_all isspace w1" "list_all isspace w2"
    unfolding spec_simple_form_def by (elim exE conjE) (rule that)
  define s where "s = (''const '' @ name) @ w1 @ ''='' @ w2 @ ''['' @ body @ (''];'' @ post)"
  have bracket: "''['' \<noteq> []" "\<not> isspace (hd ''['')"
    by (simp_all add: isspace_def)
  have closing: "prefix ''];'' (''];'' @ post)"
    by simp
  have "\<exists>b'. simple_pattern name s = Some b'"
    unfolding simple_pattern_def s_def
    by (rule declaration_complete [where rest = "prefix ''];''", OF w bracket closing])
  then have "simple_pattern name s \<noteq> None"
    by auto
  then have "re_search (simple_pattern name) (pre @ s) \<noteq> None"
    by (rule re_search_finds)
  moreover have "text = pre @ s"
    unfolding form s_def by simp
  ultimately show ?thesis by simp
qed




text \<open>
  Claim C4. When the text holds neither \<^verbatim>\<open>export const name = [ ... ]\<close> (with or without
  a join call) followed by a semicolon, nor \<^verbatim>\<open>export const name = new Set([ ... ])\<close>,
  \<open>extract_array\<close> returns the empty list; when it does not hold
  \<^verbatim>\<open>const name = [ ... ];\<close>, \<open>extract_js_array_simple\<close> returns the empty list. Both
  functions are total: they return a list for every name and text, never an error and
  never \<^verbatim>\<open>None\<close>.
\<close>

theorem absent_declaration_empty:
  assumes "plain_name name"
  shows "(\<not> spec_array_form name text \<and> \<not> spec_set_form name text
            \<longrightarrow> extract_array name text = [])
       \<and> (\<not> spec_simple_form name text \<longrightarrow> extract_js_array_simple name text = [])"
proof (intro conjI impI)
  assume "\<not> spec_array_form name text \<and> \<not> spec_set_form name text"
  then have "re_search (array_pattern name) text = None"
    "re_search (set_pattern name) text = None"
    using array_search_sound set_search_sound by (metis option.exhaust)+
  then show "extract_array name text = []"
    by (simp add: extract_array_def)
next
  assume "\<not> spec_simple_form name text"
  then have "re_search (simple_pattern name) text = None"
    using simple_search_sound by (metis option.exhaust)
  then show "extract_js_array_simple name text = []"
    by (simp add: extract_js_array_simple_def)
qed

theorem absent_declaration_empty_witness:
  "plain_name ''EXACT_SELECTORS''
   \<and> \<not> spec_array_form ''EXACT_SELECTORS'' entry_point_decl
   \<and> \<not> spec_set_form ''EXACT_SELECTORS'' entry_point_decl
   \<and> extract_array ''EXACT_SELECTORS'' entry_point_decl = []
   \<and> \<not> spec_simple_form ''EXACT_SELECTORS'' entry_point_decl
   \<and> extract_js_array_simple ''EXACT_SELECTORS'' entry_point_decl = []"
proof -
  have name: "plain_name ''EXACT_SELECTORS''"
    by (simp add: plain_name_def plain_char_def)
  have "re_search (array_pattern ''EXACT_SELECTORS'') entry_point_decl = None"
    by (simp add: entry_point_decl_def pattern_defs)
  then have a: "\<not> spec_array_form ''EXACT_SELECTORS'' entry_point_decl"
    using array_search_complete by blast
  have "re_search (set_pattern ''EXACT_SELECTORS'') entry_point_decl = None"
    by (simp add: entry_point_decl_def pattern_defs)
  then have b: "\<not> spec_set_form ''EXACT_SELECTORS'' entry_point_decl"
    using set_search_complete by blast
  have "re_search (simple_pattern ''EXACT_SELECTORS'') entry_point_decl = None"
    by (simp add: entry_point_decl_def pattern_defs)
  then have c: "\<not> spec_simple_form ''EXACT_SELECTORS'' entry_point_decl"
    using simple_search_complete by blast
  show ?thesis
    using absent_declaration_empty [OF name, of entry_point_decl] name a b c by blast
qed

section \<open>The categorizer as a partition\<close>

lemma categorize_step_eq: "categorize_step categories s = append_to (category_of s) s categories"
  by (simp add: categorize_step_def category_of_def split: option.splits)

lemma foldl_categorize_step:
  "foldl categorize_step categories selectors =
     map (\<lambda>(k, v). (k, v @ filter (\<lambda>s. category_of s = k) selectors)) categories"
proof (induction selectors arbitrary: categories)
  case Nil
  then show ?case by simp
next
  case (Cons s selectors)
  have "map (\<lambda>(k, v). (k, v @ filter (\<lambda>s. category_of s = k) selectors))
          (append_to (category_of s) s categories)
        = map (\<lambda>(k, v). (k, v @ filter (\<lambda>s. category_of s = k) (s # selectors))) categories"
    by (auto simp: append_to_def)
  with Cons show ?case
    by (simp add: categorize_step_eq)
qed

lemma empty_categories_eq: "empty_categories = map (\<lambda>k. (k, [])) bucket_names"
  by (simp add: bucket_names_def empty_categories_def)

lemma categorize_eq:
  "categorize_partial_selectors selectors =
     filter (\<lambda>(k, v). v \<noteq> [])
       (map (\<lambda>k. (k, filter (\<lambda>s. category_of s = k) selectors)) bucket_names)"
  by (simp add: categorize_partial_selectors_def foldl_categorize_step empty_categories_eq
      comp_def)

lemma first_category_in: "first_category kws l = Some c \<Longrightarrow> c \<in> fst ` set kws"
  by (induction kws l rule: first_category.induct) (auto split: if_splits)

lemma category_of_in: "category_of s \<in> set bucket_names"
proof (cases "first_category category_keywords (lower s)")
  case None
  then show ?thesis
    by (simp add: category_of_def bucket_names_def empty_categories_def)
next
  case (Some c)
  then have "c \<in> fst ` set category_keywords"
    by (rule first_category_in)
  then have "c \<in> set bucket_names"
    by (auto simp: category_keywords_def bucket_names_def empty_categories_def)
  with Some show ?thesis
    by (simp add: category_of_def)
qed

lemma distinct_bucket_names: "distinct bucket_names"
  by (simp add: bucket_names_def empty_categories_def)

lemma in_categorize_iff:
  "(k, v) \<in> set (categorize_partial_selectors selectors) \<longleftrightarrow>
     k \<in> set bucket_names \<and> v = filter (\<lambda>s. category_of s = k) selectors \<and> v \<noteq> []"
  by (auto simp: categorize_eq)

lemma selector_in_own_bucket:
  assumes "s \<in> set selectors"
  shows "(category_of s, filter (\<lambda>x. category_of x = category_of s) selectors)
           \<in> set (categorize_partial_selectors selectors)"
    and "s \<in> set (filter (\<lambda>x. category_of x = category_of s) selectors)"
proof -
  show s: "s \<in> set (filter (\<lambda>x. category_of x = category_of s) selectors)"
    using assms by simp
  have "filter (\<lambda>x. category_of x = category_of s) selectors \<noteq> []"
    using assms by (auto simp: filter_empty_conv)
  then show "(category_of s, filter (\<lambda>x. category_of x = category_of s) selectors)
           \<in> set (categorize_partial_selectors selectors)"
    unfolding in_categorize_iff using category_of_in by blast
qed

lemma selector_bucket_unique:
  assumes "(k, v) \<in> set (categorize_partial_selectors selectors)" "s \<in> set v"
  shows "k = category_of s"
  using assms unfolding in_categorize_iff by auto

lemma map_fst_categorize:
  "map fst (categorize_partial_selectors selectors) =
     filter (\<lambda>k. \<exists>s\<in>set selectors. category_of s = k) bucket_names"
proof -
  have "map fst (filter (\<lambda>(k, v). v \<noteq> []) (map (\<lambda>k. (k, g k)) ks)) = filter (\<lambda>k. g k \<noteq> []) ks"
    for g :: "string \<Rightarrow> string list" and ks
    by (induction ks) auto
  then have "map fst (categorize_partial_selectors selectors) =
     filter (\<lambda>k. filter (\<lambda>s. category_of s = k) selectors \<noteq> []) bucket_names"
    by (simp add: categorize_eq)
  moreover have "filter (\<lambda>s. category_of s = k) selectors \<noteq> [] \<longleftrightarrow>
      (\<exists>s\<in>set selectors. category_of s = k)" for k
    by (auto simp: filter_empty_conv)
  ultimately show ?thesis by simp
qed

lemma mset_partition_by:
  assumes "distinct ks"
  shows "mset (concat (map (\<lambda>k. filter (\<lambda>x. f x = k) xs) ks)) = mset (filter (\<lambda>x. f x \<in> set ks) xs)"
  using assms
proof (induction ks)
  case Nil
  then show ?case by simp
next
  case (Cons k ks)
  have "mset (filter (\<lambda>x. f x = k) xs) + mset (filter (\<lambda>x. f x \<in> set ks) xs)
      = mset (filter (\<lambda>x. f x \<in> set (k # ks)) xs)"
    using Cons.prems by (induction xs) auto
  with Cons show ?case by simp
qed

lemma concat_drop_empty:
  "concat (map snd (filter (\<lambda>(k, v). v \<noteq> []) kvs)) = concat (map snd kvs)"
  by (induction kvs) auto

lemma mset_categorize:
  "mset (concat (map snd (categorize_partial_selectors selectors))) = mset selectors"
proof -
  have "concat (map snd (categorize_partial_selectors selectors))
      = concat (map (\<lambda>k. filter (\<lambda>s. category_of s = k) selectors) bucket_names)"
    by (simp add: categorize_eq concat_drop_empty comp_def)
  then show ?thesis
    using mset_partition_by [OF distinct_bucket_names, of category_of selectors]
    by (simp add: category_of_in)
qed

lemma distinct_categorize: "distinct (map fst (categorize_partial_selectors selectors))"
  unfolding map_fst_categorize using distinct_bucket_names by simp

lemma first_category_None:
  "first_category kws l = None \<longleftrightarrow>
     (\<forall>(c, ks)\<in>set kws. \<not> list_ex (\<lambda>kw. contains kw l) ks)"
  by (induction kws l rule: first_category.induct) auto

lemma first_category_Some:
  "first_category kws l = Some c \<Longrightarrow>
     \<exists>i<length kws. c = fst (kws ! i) \<and> list_ex (\<lambda>kw. contains kw l) (snd (kws ! i))
       \<and> (\<forall>j<i. \<not> list_ex (\<lambda>kw. contains kw l) (snd (kws ! j)))"
proof (induction kws l rule: first_category.induct)
  case (1 l)
  then show ?case by simp
next
  case (2 category kws rest l)
  show ?case
  proof (cases "list_ex (\<lambda>kw. contains kw l) kws")
    case True
    with 2 have "c = category" by simp
    with True show ?thesis by (intro exI [of _ 0]) simp
  next
    case False
    with 2 obtain i where i: "i < length rest" "c = fst (rest ! i)"
      "list_ex (\<lambda>kw. contains kw l) (snd (rest ! i))"
      "\<forall>j<i. \<not> list_ex (\<lambda>kw. contains kw l) (snd (rest ! j))"
      by auto
    have "\<forall>j<Suc i. \<not> list_ex (\<lambda>kw. contains kw l) (snd (((category, kws) # rest) ! j))"
      using False i(4) by (auto simp: less_Suc_eq_0_disj)
    with i show ?thesis by (intro exI [of _ "Suc i"]) simp
  qed
qed

lemma contains_map: "contains kw s \<Longrightarrow> contains (map f kw) (map f s)"
proof (induction s)
  case Nil
  then show ?case by simp
next
  case (Cons c cs)
  then show ?case
    using map_mono_prefix [of kw "c # cs" f] by auto
qed

lemma contains_lower_ad: "contains ''ad'' s \<Longrightarrow> contains ''ad'' (lower s)"
  using contains_map [of "''ad''" s lower_char] by (simp add: lower_def lower_char_def)

lemma ad_is_ads: "contains ''ad'' (lower s) \<Longrightarrow> category_of s = ''ads''"
  by (simp add: category_of_def category_keywords_def)

lemma example_categorized:
  "categorize_partial_selectors example_selectors =
     [(''ads'', [''nav-ad'', ''ADVERT'']), (''navigation'', [''NAVbar'']),
      (''sidebar'', [''sidebar'']), (''misc'', [''Foo'', ''xyz'', ''Foo''])]"
  by code_simp

lemma foo_matches_nothing:
  "\<forall>(category, kws)\<in>set category_keywords. \<forall>kw\<in>set kws. \<not> contains kw (lower ''Foo'')"
  by (simp add: category_keywords_def lower_def lower_char_def)

lemma category_of_first_match:
  "(\<exists>i<length category_keywords. category_of s = fst (category_keywords ! i)
       \<and> matches_at i (lower s) \<and> (\<forall>j<i. \<not> matches_at j (lower s)))
   \<or> (category_of s = ''misc'' \<and> (\<forall>j<length category_keywords. \<not> matches_at j (lower s)))"
proof (cases "first_category category_keywords (lower s)")
  case None
  then have "\<forall>(c, ks)\<in>set category_keywords. \<not> list_ex (\<lambda>kw. contains kw (lower s)) ks"
    by (simp only: first_category_None)
  then have "\<forall>j<length category_keywords. \<not> matches_at j (lower s)"
    unfolding matches_at_def by (metis (no_types, lifting) case_prodD nth_mem prod.collapse)
  with None show ?thesis
    by (simp add: category_of_def)
next
  case (Some c)
  then show ?thesis
    using first_category_Some [OF Some] by (auto simp: category_of_def matches_at_def)
qed


text \<open>
  Claim C2. The buckets of the result partition the input: joined together they hold
  exactly the input strings, each as often as the input does; no bucket name occurs
  twice; every input string is in the bucket of exactly one name; and a string whose
  lower-cased form contains no keyword of any bucket is in \<^verbatim>\<open>misc\<close>.
\<close>

theorem categorizer_partition:
  "mset (concat (map snd (categorize_partial_selectors selectors))) = mset selectors
   \<and> distinct (map fst (categorize_partial_selectors selectors))
   \<and> (\<forall>s\<in>set selectors.
         \<exists>!k. \<exists>v. (k, v) \<in> set (categorize_partial_selectors selectors) \<and> s \<in> set v)
   \<and> (\<forall>s\<in>set selectors.
         (\<forall>(category, kws)\<in>set category_keywords. \<forall>kw\<in>set kws. \<not> contains kw (lower s))
         \<longrightarrow> (\<exists>v. (''misc'', v) \<in> set (categorize_partial_selectors selectors) \<and> s \<in> set v))"
proof (intro conjI ballI impI)
  show "mset (concat (map snd (categorize_partial_selectors selectors))) = mset selectors"
    by (rule mset_categorize)
  show "distinct (map fst (categorize_partial_selectors selectors))"
    by (rule distinct_categorize)
next
  fix s assume s: "s \<in> set selectors"
  show "\<exists>!k. \<exists>v. (k, v) \<in> set (categorize_partial_selectors selectors) \<and> s \<in> set v"
  proof (rule ex1I [of _ "category_of s"])
    show "\<exists>v. (category_of s, v) \<in> set (categorize_partial_selectors selectors) \<and> s \<in> set v"
      using selector_in_own_bucket [OF s] by blast
  next
    fix k assume "\<exists>v. (k, v) \<in> set (categorize_partial_selectors selectors) \<and> s \<in> set v"
    then show "k = category_of s"
      using selector_bucket_unique by blast
  qed
next
  fix s assume s: "s \<in> set selectors"
    and none: "\<forall>(category, kws)\<in>set category_keywords. \<forall>kw\<in>set kws. \<not> contains kw (lower s)"
  then have "first_category category_keywords (lower s) = None"
    unfolding first_category_None by (auto simp: list_ex_iff)
  then have "category_of s = ''misc''"
    by (simp add: category_of_def)
  then show "\<exists>v. (''misc'', v) \<in> set (categorize_partial_selectors selectors) \<and> s \<in> set v"
    using selector_in_own_bucket [OF s] by metis
qed

theorem categorizer_partition_witness:
  "categorize_partial_selectors example_selectors =
     [(''ads'', [''nav-ad'', ''ADVERT'']), (''navigation'', [''NAVbar'']),
      (''sidebar'', [''sidebar'']), (''misc'', [''Foo'', ''xyz'', ''Foo''])]
   \<and> mset (concat (map snd (categorize_partial_selectors example_selectors)))
       = mset example_selectors
   \<and> distinct (map fst (categorize_partial_selectors example_selectors))
   \<and> (\<exists>!k. \<exists>v. (k, v) \<in> set (categorize_partial_selectors example_selectors)
         \<and> ''Foo'' \<in> set v)
   \<and> (\<exists>v. (''misc'', v) \<in> set (categorize_partial_selectors example_selectors)
         \<and> ''Foo'' \<in> set v)"
proof -
  have foo: "''Foo'' \<in> set example_selectors"
    by (simp add: example_selectors_def)
  show ?thesis
    using categorizer_partition [of example_selectors] foo foo_matches_nothing
      example_categorized
    by blast
qed

text \<open>
  Claim C3. The keyword table lists the twelve buckets in the fixed order. A string is
  in the bucket of the first place of the table one of whose keywords occurs in the
  lower-cased string, and in \<^verbatim>\<open>misc\<close> when there is no such place. A string containing
  both \<^verbatim>\<open>nav\<close> and \<^verbatim>\<open>ad\<close> is in the bucket \<^verbatim>\<open>ads\<close> and in no other.
\<close>

theorem first_match_wins:
  "map fst category_keywords =
     [''ads'', ''navigation'', ''header_footer'', ''sidebar'', ''social'', ''comments'',
      ''auth'', ''newsletter'', ''article_meta'', ''post_meta'', ''author'', ''related'']
   \<and> (\<forall>s\<in>set selectors. \<forall>k v.
         (k, v) \<in> set (categorize_partial_selectors selectors) \<and> s \<in> set v \<longrightarrow>
           (\<exists>i<length category_keywords. k = fst (category_keywords ! i)
               \<and> matches_at i (lower s) \<and> (\<forall>j<i. \<not> matches_at j (lower s)))
           \<or> (k = ''misc'' \<and> (\<forall>j<length category_keywords. \<not> matches_at j (lower s))))
   \<and> (\<forall>s\<in>set selectors. contains ''nav'' s \<and> contains ''ad'' s \<longrightarrow>
         (\<exists>v. (''ads'', v) \<in> set (categorize_partial_selectors selectors) \<and> s \<in> set v)
         \<and> (\<forall>k v. (k, v) \<in> set (categorize_partial_selectors selectors) \<and> s \<in> set v
               \<longrightarrow> k = ''ads''))"
proof (intro conjI ballI allI impI)
  show "map fst category_keywords =
     [''ads'', ''navigation'', ''header_footer'', ''sidebar'', ''social'', ''comments'',
      ''auth'', ''newsletter'', ''article_meta'', ''post_meta'', ''author'', ''related'']"
    by (simp add: category_keywords_def)
next
  fix s k v
  assume "s \<in> set selectors"
    and "(k, v) \<in> set (categorize_partial_selectors selectors) \<and> s \<in> set v"
  then have "k = category_of s"
    using selector_bucket_unique by blast
  then show "(\<exists>i<length category_keywords. k = fst (category_keywords ! i)
               \<and> matches_at i (lower s) \<and> (\<forall>j<i. \<not> matches_at j (lower s)))
           \<or> (k = ''misc'' \<and> (\<forall>j<length category_keywords. \<not> matches_at j (lower s)))"
    using category_of_first_match [of s] by simp
next
  fix s
  assume s: "s \<in> set selectors" and "contains ''nav'' s \<and> contains ''ad'' s"
  then have ads: "category_of s = ''ads''"
    using contains_lower_ad ad_is_ads by blast
  show "\<exists>v. (''ads'', v) \<in> set (categorize_partial_selectors selectors) \<and> s \<in> set v"
    using selector_in_own_bucket [OF s] ads by metis
  fix k v
  assume "(k, v) \<in> set (categorize_partial_selectors selectors) \<and> s \<in> set v"
  then show "k = ''ads''"
    using selector_bucket_unique ads by blast
qed

theorem first_match_wins_witness:
  "contains ''nav'' ''nav-ad'' \<and> contains ''ad'' ''nav-ad''
   \<and> (''ads'', [''nav-ad'', ''ADVERT'']) \<in> set (categorize_partial_selectors example_selectors)
   \<and> (''navigation'', [''NAVbar'']) \<in> set (categorize_partial_selectors example_selectors)
   \<and> matches_at 1 (lower ''nav-ad'') \<and> matches_at 0 (lower ''nav-ad'')
   \<and> matches_at 1 (lower ''NAVbar'') \<and> \<not> matches_at 0 (lower ''NAVbar'')
   \<and> (\<exists>v. (''ads'', v) \<in> set (categorize_partial_selectors example_selectors)
         \<and> ''nav-ad'' \<in> set v)
   \<and> (\<exists>i<length category_keywords. ''navigation'' = fst (category_keywords ! i)
         \<and> matches_at i (lower ''NAVbar'') \<and> (\<forall>j<i. \<not> matches_at j (lower ''NAVbar'')))"
proof -
  have in_list: "''nav-ad'' \<in> set example_selectors" "''NAVbar'' \<in> set example_selectors"
    by (simp_all add: example_selectors_def)
  have both: "contains ''nav'' ''nav-ad'' \<and> contains ''ad'' ''nav-ad''"
    by simp
  have buckets:
    "(''ads'', [''nav-ad'', ''ADVERT'']) \<in> set (categorize_partial_selectors example_selectors)"
    "(''navigation'', [''NAVbar'']) \<in> set (categorize_partial_selectors example_selectors)"
    by (simp_all add: example_categorized)
  have m: "matches_at 1 (lower ''nav-ad'')" "matches_at 0 (lower ''nav-ad'')"
    "matches_at 1 (lower ''NAVbar'')" "\<not> matches_at 0 (lower ''NAVbar'')"
    by code_simp+
  have not_misc: "''navigation'' \<noteq> ''misc''"
    by simp
  note inst = first_match_wins [of example_selectors]
  have a: "\<exists>v. (''ads'', v) \<in> set (categorize_partial_selectors example_selectors)
         \<and> ''nav-ad'' \<in> set v"
    using inst in_list(1) both by blast
  have "(''navigation'', [''NAVbar'']) \<in> set (categorize_partial_selectors example_selectors)
      \<and> ''NAVbar'' \<in> set [''NAVbar'']"
    using buckets(2) by simp
  then have b: "\<exists>i<length category_keywords. ''navigation'' = fst (category_keywords ! i)
         \<and> matches_at i (lower ''NAVbar'') \<and> (\<forall>j<i. \<not> matches_at j (lower ''NAVbar''))"
    using inst in_list(2) not_misc by blast
  from both buckets m a b show ?thesis
    by blast
qed


text \<open>
  Claim C6. The names of the result are the names of the non-empty buckets in the fixed
  order; each bucket holds the input strings of its category in their order in the
  input; no bucket of the result is empty.
\<close>

theorem categorizer_output_order:
  "map fst (categorize_partial_selectors selectors) =
     filter (\<lambda>k. \<exists>s\<in>set selectors. category_of s = k)
       [''ads'', ''navigation'', ''header_footer'', ''sidebar'', ''social'', ''comments'',
        ''auth'', ''newsletter'', ''article_meta'', ''post_meta'', ''author'', ''related'',
        ''misc'']
   \<and> (\<forall>(k, v)\<in>set (categorize_partial_selectors selectors).
         v = filter (\<lambda>s. category_of s = k) selectors \<and> v \<noteq> [])"
proof
  have "bucket_names =
       [''ads'', ''navigation'', ''header_footer'', ''sidebar'', ''social'', ''comments'',
        ''auth'', ''newsletter'', ''article_meta'', ''post_meta'', ''author'', ''related'',
        ''misc'']"
    by (simp add: bucket_names_def empty_categories_def)
  then show "map fst (categorize_partial_selectors selectors) =
     filter (\<lambda>k. \<exists>s\<in>set selectors. category_of s = k)
       [''ads'', ''navigation'', ''header_footer'', ''sidebar'', ''social'', ''comments'',
        ''auth'', ''newsletter'', ''article_meta'', ''post_meta'', ''author'', ''related'',
        ''misc'']"
    using map_fst_categorize [of selectors] by simp
  show "\<forall>(k, v)\<in>set (categorize_partial_selectors selectors).
         v = filter (\<lambda>s. category_of s = k) selectors \<and> v \<noteq> []"
    using in_categorize_iff by blast
qed

theorem categorizer_output_order_witness:
  "categorize_partial_selectors example_selectors =
     [(''ads'', [''nav-ad'', ''ADVERT'']), (''navigation'', [''NAVbar'']),
      (''sidebar'', [''sidebar'']), (''misc'', [''Foo'', ''xyz'', ''Foo''])]
   \<and> map fst (categorize_partial_selectors example_selectors) =
     filter (\<lambda>k. \<exists>s\<in>set example_selectors. category_of s = k)
       [''ads'', ''navigation'', ''header_footer'', ''sidebar'', ''social'', ''comments'',
        ''auth'', ''newsletter'', ''article_meta'', ''post_meta'', ''author'', ''related'',
        ''misc'']
   \<and> [''Foo'', ''xyz'', ''Foo''] = filter (\<lambda>s. category_of s = ''misc'') example_selectors
   \<and> [''Foo'', ''xyz'', ''Foo''] \<noteq> []"
proof -
  have "(''misc'', [''Foo'', ''xyz'', ''Foo'']) \<in> set (categorize_partial_selectors example_selectors)"
    by (simp add: example_categorized)
  then show ?thesis
    using categorizer_output_order [of example_selectors] example_categorized
    by blast
qed

section \<open>The command: exit status and output\<close>

lemma main_missing:
  assumes "\<not> path_exists w (input_path w argv)"
  shows "main w argv =
     \<lparr>stdout = [],
      stderr = [Line (''Error: '' @ str w (input_path w argv) @ '' not found'')],
      status = 1\<rparr>"
  using assms by (simp add: main_def)

lemma main_unreadable:
  assumes "path_exists w (input_path w argv)" "read_text w (input_path w argv) = Inl e"
  shows "main w argv = \<lparr>stdout = [], stderr = [Traceback e], status = 1\<rparr>"
  using assms by (simp add: main_def uncaught_def)

lemma main_scoring_unreadable:
  assumes "path_exists w (input_path w argv)" "read_text w (input_path w argv) = Inr content"
    "read_scoring w argv = Inl e"
  shows "main w argv = \<lparr>stdout = [], stderr = [Traceback e], status = 1\<rparr>"
  using assms by (simp add: main_def uncaught_def)

lemma main_prints:
  assumes "path_exists w (input_path w argv)" "read_text w (input_path w argv) = Inr content"
    "read_scoring w argv = Inr scoring_content"
  shows "main w argv =
     \<lparr>stdout = dumps (manifest content scoring_content) @ [NL], stderr = [], status = 0\<rparr>"
  using assms by (simp add: main_def)

lemmas world_defs = directory_world_def one_file_world_def input_path_def scoring_path_def
  read_scoring_def


text \<open>
  Claim C7, as the code has it. The input path is the first argument, or the fixed
  default when there is none. When it does not exist, the run prints one line on the
  error stream, nothing on standard output, and ends with status 1. When it exists and
  both the input and the sibling \<^verbatim>\<open>scoring.ts\<close> (if that exists) can be read as text, the
  run prints the manifest and ends with status 0. When it exists and reading one of the
  two raises, the exception is not caught: a traceback on the error stream, nothing on
  standard output, status 1.
\<close>

theorem main_exit_status:
  "input_path w [] = Path w ''tmp/defuddle/src/constants.ts''
   \<and> input_path w [prog] = Path w ''tmp/defuddle/src/constants.ts''
   \<and> input_path w (prog # arg # others) = Path w arg
   \<and> (\<not> path_exists w (input_path w argv) \<longrightarrow>
         stdout (main w argv) = [] \<and> status (main w argv) = 1
         \<and> stderr (main w argv)
             = [Line (''Error: '' @ str w (input_path w argv) @ '' not found'')])
   \<and> (path_exists w (input_path w argv)
        \<and> read_text w (input_path w argv) = Inr content
        \<and> read_scoring w argv = Inr scoring_content \<longrightarrow>
         stdout (main w argv) = dumps (manifest content scoring_content) @ [NL]
         \<and> stderr (main w argv) = [] \<and> status (main w argv) = 0)
   \<and> (path_exists w (input_path w argv)
        \<and> (read_text w (input_path w argv) = Inl e
            \<or> (read_text w (input_path w argv) = Inr content \<and> read_scoring w argv = Inl e))
        \<longrightarrow>
         stdout (main w argv) = [] \<and> stderr (main w argv) = [Traceback e]
         \<and> status (main w argv) = 1)"
proof (intro conjI impI)
  show "input_path w [] = Path w ''tmp/defuddle/src/constants.ts''"
    "input_path w [prog] = Path w ''tmp/defuddle/src/constants.ts''"
    "input_path w (prog # arg # others) = Path w arg"
    by (simp_all add: input_path_def)
next
  assume a: "\<not> path_exists w (input_path w argv)"
  show "stdout (main w argv) = []" "status (main w argv) = 1"
    "stderr (main w argv) = [Line (''Error: '' @ str w (input_path w argv) @ '' not found'')]"
    by (simp_all add: main_missing [OF a])
next
  assume a: "path_exists w (input_path w argv)
        \<and> read_text w (input_path w argv) = Inr content
        \<and> read_scoring w argv = Inr scoring_content"
  then have m: "main w argv =
     \<lparr>stdout = dumps (manifest content scoring_content) @ [NL], stderr = [], status = 0\<rparr>"
    by (intro main_prints) simp_all
  show "stdout (main w argv) = dumps (manifest content scoring_content) @ [NL]"
    "stderr (main w argv) = []" "status (main w argv) = 0"
    by (simp_all add: m)
next
  assume a: "path_exists w (input_path w argv)
        \<and> (read_text w (input_path w argv) = Inl e
            \<or> (read_text w (input_path w argv) = Inr content \<and> read_scoring w argv = Inl e))"
  then have m: "main w argv = \<lparr>stdout = [], stderr = [Traceback e], status = 1\<rparr>"
    using main_unreadable [of w argv e] main_scoring_unreadable [of w argv content e] by blast
  show "stdout (main w argv) = []" "stderr (main w argv) = [Traceback e]"
    "status (main w argv) = 1"
    by (simp_all add: m)
qed

theorem main_exit_status_witness:
  "\<not> path_exists (one_file_world entry_point_decl)
        (input_path (one_file_world entry_point_decl) [''prog''])
   \<and> stdout (main (one_file_world entry_point_decl) [''prog'']) = []
   \<and> status (main (one_file_world entry_point_decl) [''prog'']) = 1
   \<and> stderr (main (one_file_world entry_point_decl) [''prog''])
       = [Line ''Error: tmp/defuddle/src/constants.ts not found'']
   \<and> path_exists (one_file_world entry_point_decl)
        (input_path (one_file_world entry_point_decl) [''prog'', ''constants.ts''])
   \<and> stdout (main (one_file_world entry_point_decl) [''prog'', ''constants.ts''])
       = dumps (manifest entry_point_decl []) @ [NL]
   \<and> status (main (one_file_world entry_point_decl) [''prog'', ''constants.ts'']) = 0
   \<and> status (main directory_world [''prog'']) = 1"
proof -
  let ?w = "one_file_world entry_point_decl"
  have missing: "\<not> path_exists ?w (input_path ?w [''prog''])"
    by (simp add: world_defs)
  have str: "str ?w (input_path ?w [''prog'']) = ''tmp/defuddle/src/constants.ts''"
    by (simp add: world_defs)
  have there: "path_exists ?w (input_path ?w [''prog'', ''constants.ts''])"
    "read_text ?w (input_path ?w [''prog'', ''constants.ts'']) = Inr entry_point_decl"
    "read_scoring ?w [''prog'', ''constants.ts''] = Inr []"
    by (simp_all add: world_defs)
  have dir: "path_exists directory_world (input_path directory_world [''prog''])"
    "read_text directory_world (input_path directory_world [''prog'']) = Inl IsADirectoryError"
    by (simp_all add: world_defs)
  have a: "stdout (main ?w [''prog'']) = [] \<and> status (main ?w [''prog'']) = 1
      \<and> stderr (main ?w [''prog'']) = [Line ''Error: tmp/defuddle/src/constants.ts not found'']"
    using main_exit_status [of ?w "''prog''" "[]" "[]" "[''prog'']"] missing str by simp
  have b: "stdout (main ?w [''prog'', ''constants.ts'']) = dumps (manifest entry_point_decl []) @ [NL]
      \<and> status (main ?w [''prog'', ''constants.ts'']) = 0"
    using main_exit_status [of ?w "''prog''" "[]" "[]" "[''prog'', ''constants.ts'']"
        entry_point_decl "[]"] there by blast
  have c: "status (main directory_world [''prog'']) = 1"
    using main_exit_status [of directory_world "''prog''" "[]" "[]" "[''prog'']" _ _
        IsADirectoryError] dir by blast
  from missing there(1) a b c show ?thesis by blast
qed

text \<open>
  In \<open>directory_world\<close> the path \<^verbatim>\<open>src\<close> exists, being a directory, and reading it raises
  \<^verbatim>\<open>IsADirectoryError\<close>, which nothing catches: the run ends with status 1 and nothing on
  standard output, not with status 0 after printing the manifest.
\<close>

theorem main_exit_status_counterexample:
  "path_exists directory_world (input_path directory_world [''prog'', ''src''])
   \<and> status (main directory_world [''prog'', ''src'']) = 1
   \<and> stdout (main directory_world [''prog'', ''src'']) = []
   \<and> stderr (main directory_world [''prog'', ''src'']) = [Traceback IsADirectoryError]"
  by (simp add: world_defs main_def uncaught_def)

section \<open>The end-to-end scenario\<close>

lemma re_search_skips:
  "(\<And>k. k < length pre \<Longrightarrow> m (drop k pre @ rest) = None)
     \<Longrightarrow> re_search m (pre @ rest) = re_search m rest"
proof (induction pre)
  case Nil
  then show ?case by simp
next
  case (Cons c pre)
  have "m ((c # pre) @ rest) = None"
    using Cons.prems [of 0] by simp
  moreover have "re_search m (pre @ rest) = re_search m rest"
  proof (rule Cons.IH)
    fix k assume "k < length pre"
    then show "m (drop k pre @ rest) = None"
      using Cons.prems [of "Suc k"] by simp
  qed
  ultimately show ?case by simp
qed

lemma contains_prefix: "prefix kw s \<Longrightarrow> contains kw s"
  by (cases s) auto

lemma contains_drop: "contains kw (drop k s) \<Longrightarrow> contains kw s"
proof (induction s arbitrary: k)
  case Nil
  then show ?case by simp
next
  case (Cons c cs)
  then show ?case by (cases k) auto
qed

lemma prefix_append_long:
  assumes "prefix e (p @ q)" "length e \<le> length p"
  shows "prefix e p"
  using assms by (auto simp: prefix_append)

lemma prefix_nth: "prefix e s \<Longrightarrow> i < length e \<Longrightarrow> s ! i = e ! i"
  by (auto simp: prefix_def nth_append)

lemma overlap_repeats_head:
  assumes "prefix e (p @ e @ r)" "length p < length e"
  shows "e ! length p = hd e"
proof -
  have "(p @ e @ r) ! length p = e ! length p"
    using assms by (rule prefix_nth)
  moreover have "(p @ e @ r) ! length p = hd e"
    using assms(2) by (cases e) (simp_all add: nth_append)
  ultimately show ?thesis by simp
qed

lemma export_const_no_overlap:
  assumes "p \<noteq> []" and "\<not> contains ''export const '' p"
  shows "\<not> prefix ''export const '' (p @ ''export const '' @ r)"
proof
  assume pre: "prefix ''export const '' (p @ ''export const '' @ r)"
  show False
  proof (cases "length p < 13")
    case False
    then have "prefix ''export const '' p"
      by (intro prefix_append_long [OF pre]) simp
    then show False
      using assms(2) contains_prefix by blast
  next
    case True
    then have "''export const '' ! length p = hd ''export const ''"
      by (intro overlap_repeats_head [OF pre]) simp
    then have e: "''export const '' ! length p = CHR ''e''"
      by simp
    obtain k where k: "length p = Suc k"
      using assms(1) by (cases p) auto
    have "k < length (tl ''export const '')"
      using True k by simp
    then have "tl ''export const '' ! k \<in> set (tl ''export const '')"
      by (rule nth_mem)
    moreover have "tl ''export const '' ! k = ''export const '' ! length p"
      by (simp add: k)
    ultimately have "CHR ''e'' \<in> set (tl ''export const '')"
      using e by simp
    then show False
      by simp
  qed
qed

lemma lit_needs_prefix: "\<not> prefix p s \<Longrightarrow> lit (p @ q) s = None"
  by (auto simp: lit_def dest: append_prefixD)

lemma array_pattern_needs_export:
  "\<not> prefix ''export const '' s \<Longrightarrow> array_pattern name s = None"
  unfolding array_pattern_def by (subst lit_needs_prefix) simp_all

lemma set_pattern_needs_export:
  "\<not> prefix ''export const '' s \<Longrightarrow> set_pattern name s = None"
  unfolding set_pattern_def by (subst lit_needs_prefix) simp_all

lemma re_search_without_export:
  assumes m: "\<And>s. \<not> prefix ''export const '' s \<Longrightarrow> m s = None"
    and "\<not> contains ''export const '' s"
  shows "re_search m s = None"
  using assms(2)
proof (induction s)
  case Nil
  then show ?case by (simp add: m)
next
  case (Cons c cs)
  then show ?case by (simp add: m)
qed

lemma re_search_step:
  "s \<noteq> [] \<Longrightarrow> re_search m s = (case m s of Some g \<Rightarrow> Some g | None \<Rightarrow> re_search m (tl s))"
  by (cases s) (simp_all split: option.splits)

lemma re_search_entry_point_decl:
  assumes m: "\<And>s. \<not> prefix ''export const '' s \<Longrightarrow> m s = None"
  shows "re_search m (entry_point_decl @ post) =
     (case m (entry_point_decl @ post) of Some g \<Rightarrow> Some g | None \<Rightarrow> re_search m post)"
proof -
  have "re_search m (tl (entry_point_decl @ post)) = re_search m post"
    by (simp add: entry_point_decl_def m)
  moreover have "entry_point_decl @ post \<noteq> []"
    by (simp add: entry_point_decl_def)
  ultimately show ?thesis
    using re_search_step [of "entry_point_decl @ post" m] by (simp split: option.splits)
qed

lemma re_search_in_context:
  assumes m: "\<And>s. \<not> prefix ''export const '' s \<Longrightarrow> m s = None"
    and pre: "\<not> contains ''export const '' pre" and post: "\<not> contains ''export const '' post"
  shows "re_search m (pre @ entry_point_decl @ post) = m (entry_point_decl @ post)"
proof -
  have "re_search m (pre @ entry_point_decl @ post) = re_search m (entry_point_decl @ post)"
  proof (rule re_search_skips)
    fix k assume k: "k < length pre"
    then have "drop k pre \<noteq> []" by simp
    moreover have "\<not> contains ''export const '' (drop k pre)"
      using pre contains_drop by blast
    ultimately have "\<not> prefix ''export const ''
        (drop k pre @ ''export const '' @ (''ENTRY_POINT_ELEMENTS = ['article', 'main'];'' @ post))"
      by (rule export_const_no_overlap)
    then have "\<not> prefix ''export const '' (drop k pre @ entry_point_decl @ post)"
      by (simp add: entry_point_decl_def)
    then show "m (drop k pre @ entry_point_decl @ post) = None"
      by (rule m)
  qed
  also have "\<dots> = (case m (entry_point_decl @ post) of Some g \<Rightarrow> Some g
      | None \<Rightarrow> re_search m post)"
    using m by (rule re_search_entry_point_decl)
  also have "\<dots> = m (entry_point_decl @ post)"
    using re_search_without_export [of m post, OF m post] by (simp split: option.splits)
  finally show ?thesis .
qed

lemma extract_array_in_context:
  assumes "\<not> contains ''export const '' pre" "\<not> contains ''export const '' post"
  shows "extract_array name (pre @ entry_point_decl @ post) =
     (case (case array_pattern name (entry_point_decl @ post) of
              Some b \<Rightarrow> Some b
            | None \<Rightarrow> set_pattern name (entry_point_decl @ post)) of
        None \<Rightarrow> []
      | Some array_content \<Rightarrow> array_items array_content)"
  unfolding extract_array_def
  using re_search_in_context [of "array_pattern name", OF array_pattern_needs_export assms]
    re_search_in_context [of "set_pattern name", OF set_pattern_needs_export assms]
  by (simp split: option.splits)

lemma entry_point_body:
  "array_pattern ''ENTRY_POINT_ELEMENTS'' (entry_point_decl @ post)
     = Some (SQ # ''article'' @ [SQ] @ '', '' @ [SQ] @ ''main'' @ [SQ])"
  by (simp add: entry_point_decl_def lit_def skip_ws_def isspace_def is_quote_def
      join_call_def array_end_def array_pattern_def)

lemma entry_point_extracted:
  assumes "\<not> contains ''export const '' pre" "\<not> contains ''export const '' post"
  shows "extract_array ''ENTRY_POINT_ELEMENTS'' (pre @ entry_point_decl @ post)
      = [''article'', ''main'']"
  unfolding extract_array_in_context [OF assms] entry_point_body
  by (simp add: array_items_def single_line_def strip_def isspace_def single_line_items_def)

lemma other_name_absent:
  assumes "\<not> contains ''export const '' pre" "\<not> contains ''export const '' post"
    and "\<not> prefix (''export const '' @ name) (entry_point_decl @ post)"
  shows "extract_array name (pre @ entry_point_decl @ post) = []"
proof -
  from assms(3) have "array_pattern name (entry_point_decl @ post) = None"
    "set_pattern name (entry_point_decl @ post) = None"
    by (simp_all add: array_pattern_def set_pattern_def lit_def)
  then show ?thesis
    unfolding extract_array_in_context [OF assms(1,2)] by simp
qed

lemma other_names_absent:
  assumes "\<not> contains ''export const '' pre" "\<not> contains ''export const '' post"
  shows "extract_array ''PARTIAL_SELECTORS'' (pre @ entry_point_decl @ post) = []"
    and "extract_array ''EXACT_SELECTORS'' (pre @ entry_point_decl @ post) = []"
    and "extract_array ''TEST_ATTRIBUTES'' (pre @ entry_point_decl @ post) = []"
    and "extract_array ''BLOCK_ELEMENTS'' (pre @ entry_point_decl @ post) = []"
    and "extract_array ''PRESERVE_ELEMENTS'' (pre @ entry_point_decl @ post) = []"
    and "extract_array ''INLINE_ELEMENTS'' (pre @ entry_point_decl @ post) = []"
    and "extract_array ''ALLOWED_EMPTY_ELEMENTS'' (pre @ entry_point_decl @ post) = []"
    and "extract_array ''ALLOWED_ATTRIBUTES'' (pre @ entry_point_decl @ post) = []"
    and "extract_array ''FOOTNOTE_INLINE_REFERENCES'' (pre @ entry_point_decl @ post) = []"
    and "extract_array ''FOOTNOTE_LIST_SELECTORS'' (pre @ entry_point_decl @ post) = []"
  by (rule other_name_absent [OF assms], simp add: entry_point_decl_def)+

lemma empty_scoring:
  "extract_js_array_simple name [] = []"
  by (simp add: extract_js_array_simple_def simple_pattern_def lit_def)

lemma categorize_nothing: "categorize_partial_selectors [] = []"
  by (simp add: categorize_partial_selectors_def empty_categories_def)

lemma scoring_fields_empty:
  "field [''scoring'', ''content_indicators''] (manifest content []) = Some (JArray [])"
  "field [''scoring'', ''navigation_indicators''] (manifest content []) = Some (JArray [])"
  "field [''scoring'', ''non_content_patterns''] (manifest content []) = Some (JArray [])"
  by (simp_all add: manifest_def Let_def empty_scoring strings_def)

lemma scenario_fields:
  assumes "\<not> contains ''export const '' pre" "\<not> contains ''export const '' post"
  shows "field [''content_selectors'', ''selectors'']
           (manifest (pre @ entry_point_decl @ post) scoring_content)
         = Some (JArray [JString ''article'', JString ''main''])"
    and "field [''remove'', ''exact_selectors'']
           (manifest (pre @ entry_point_decl @ post) scoring_content) = Some (JArray [])"
    and "field [''remove'', ''partial_patterns'', ''check_attributes'']
           (manifest (pre @ entry_point_decl @ post) scoring_content) = Some (JArray [])"
    and "field [''remove'', ''partial_patterns'', ''patterns'']
           (manifest (pre @ entry_point_decl @ post) scoring_content) = Some (JObject [])"
    and "field [''preserve'', ''block_elements'']
           (manifest (pre @ entry_point_decl @ post) scoring_content) = Some (JArray [])"
    and "field [''preserve'', ''preserve_elements'']
           (manifest (pre @ entry_point_decl @ post) scoring_content) = Some (JArray [])"
    and "field [''preserve'', ''inline_elements'']
           (manifest (pre @ entry_point_decl @ post) scoring_content) = Some (JArray [])"
    and "field [''preserve'', ''allowed_empty'']
           (manifest (pre @ entry_point_decl @ post) scoring_content) = Some (JArray [])"
    and "field [''preserve'', ''allowed_attributes'']
           (manifest (pre @ entry_point_decl @ post) scoring_content) = Some (JArray [])"
    and "field [''footnotes'', ''inline_references'']
           (manifest (pre @ entry_point_decl @ post) scoring_content) = Some (JArray [])"
    and "field [''footnotes'', ''list_selectors'']
           (manifest (pre @ entry_point_decl @ post) scoring_content) = Some (JArray [])"
  unfolding manifest_def Let_def entry_point_extracted [OF assms] other_names_absent [OF assms]
    categorize_nothing
  by (simp_all add: strings_def)


text \<open>
  Claim C8. For a document that holds the declaration
  \<^verbatim>\<open>export const ENTRY_POINT_ELEMENTS = ['article', 'main'];\<close> and the text
  \<^verbatim>\<open>export const\<close> nowhere else, the field \<^verbatim>\<open>content_selectors.selectors\<close> of the manifest
  is \<^verbatim>\<open>["article", "main"]\<close>, every other sequence taken from that document is empty and
  the mapping of patterns is empty, whatever the supplementary text is. When the sibling
  file does not exist, its text is the empty text, the run prints the manifest for it
  and ends with status 0, and the three fields under \<^verbatim>\<open>scoring\<close> are empty.
\<close>

theorem entry_point_scenario:
  "(\<not> contains ''export const '' pre \<and> \<not> contains ''export const '' post
    \<and> content = pre @ entry_point_decl @ post \<longrightarrow>
       field [''content_selectors'', ''selectors''] (manifest content scoring_content)
         = Some (JArray [JString ''article'', JString ''main''])
     \<and> field [''remove'', ''exact_selectors''] (manifest content scoring_content)
         = Some (JArray [])
     \<and> field [''remove'', ''partial_patterns'', ''check_attributes'']
           (manifest content scoring_content) = Some (JArray [])
     \<and> field [''remove'', ''partial_patterns'', ''patterns''] (manifest content scoring_content)
         = Some (JObject [])
     \<and> field [''preserve'', ''block_elements''] (manifest content scoring_content)
         = Some (JArray [])
     \<and> field [''preserve'', ''preserve_elements''] (manifest content scoring_content)
         = Some (JArray [])
     \<and> field [''preserve'', ''inline_elements''] (manifest content scoring_content)
         = Some (JArray [])
     \<and> field [''preserve'', ''allowed_empty''] (manifest content scoring_content)
         = Some (JArray [])
     \<and> field [''preserve'', ''allowed_attributes''] (manifest content scoring_content)
         = Some (JArray [])
     \<and> field [''footnotes'', ''inline_references''] (manifest content scoring_content)
         = Some (JArray [])
     \<and> field [''footnotes'', ''list_selectors''] (manifest content scoring_content)
         = Some (JArray []))
   \<and> (path_exists w (input_path w argv) \<and> read_text w (input_path w argv) = Inr text
      \<and> \<not> path_exists w (scoring_path w argv) \<longrightarrow>
       read_scoring w argv = Inr []
     \<and> main w argv = \<lparr>stdout = dumps (manifest text []) @ [NL], stderr = [], status = 0\<rparr>
     \<and> field [''scoring'', ''content_indicators''] (manifest text []) = Some (JArray [])
     \<and> field [''scoring'', ''navigation_indicators''] (manifest text []) = Some (JArray [])
     \<and> field [''scoring'', ''non_content_patterns''] (manifest text []) = Some (JArray []))"
proof (intro conjI impI)
  assume a: "path_exists w (input_path w argv) \<and> read_text w (input_path w argv) = Inr text
      \<and> \<not> path_exists w (scoring_path w argv)"
  then show scoring: "read_scoring w argv = Inr []"
    by (simp add: read_scoring_def)
  from a show "main w argv =
      \<lparr>stdout = dumps (manifest text []) @ [NL], stderr = [], status = 0\<rparr>"
    by (intro main_prints scoring) simp_all
qed (simp_all add: scoring_fields_empty scenario_fields)

theorem entry_point_scenario_witness:
  "main (one_file_world scenario_text) [''prog'', ''constants.ts'']
     = \<lparr>stdout = dumps (manifest scenario_text []) @ [NL], stderr = [], status = 0\<rparr>
   \<and> field [''content_selectors'', ''selectors''] (manifest scenario_text [])
       = Some (JArray [JString ''article'', JString ''main''])
   \<and> field [''remove'', ''partial_patterns'', ''patterns''] (manifest scenario_text [])
       = Some (JObject [])
   \<and> field [''footnotes'', ''list_selectors''] (manifest scenario_text []) = Some (JArray [])
   \<and> field [''scoring'', ''content_indicators''] (manifest scenario_text []) = Some (JArray [])"
proof -
  let ?w = "one_file_world scenario_text"
  have clean: "\<not> contains ''export const '' (''// constants'' @ [NL])"
    "\<not> contains ''export const '' ([NL] @ ''export default ENTRY_POINT_ELEMENTS;'' @ [NL])"
    by simp_all
  have shape: "scenario_text = (''// constants'' @ [NL]) @ entry_point_decl
     @ ([NL] @ ''export default ENTRY_POINT_ELEMENTS;'' @ [NL])"
    by (rule scenario_text_def)
  have run: "path_exists ?w (input_path ?w [''prog'', ''constants.ts''])"
    "read_text ?w (input_path ?w [''prog'', ''constants.ts'']) = Inr scenario_text"
    "\<not> path_exists ?w (scoring_path ?w [''prog'', ''constants.ts''])"
    by (simp_all add: world_defs)
  show ?thesis
    using entry_point_scenario [of "''// constants'' @ [NL]"
        "[NL] @ ''export default ENTRY_POINT_ELEMENTS;'' @ [NL]" scenario_text "[]" ?w
        "[''prog'', ''constants.ts'']" scenario_text]
      clean shape run
    by blast
qed

end
